theory Spec2Isabelle
  imports Main "HOL-Library.Sublist" "HOL-Library.Char_ord" "HOL-Library.List_Lexorder"
    "HOL-Library.Product_Lexorder"
begin

section \<open>Paths, configuration and errors\<close>

text \<open>
  The program under study is \<^verbatim>\<open>src/code2md/main.py\<close>, class \<^verbatim>\<open>Code2MD\<close>.
  A \<^verbatim>\<open>pathlib.Path\<close> is modelled on POSIX as the list of its components below the
  anchor \<^verbatim>\<open>/\<close>; strings are byte strings (UTF-8).  Exceptions are values of
  the type \<open>error\<close>; a function that may raise returns \<open>error + 'a\<close>.
\<close>

type_synonym path = "string list"

datatype error = ValueError | PermissionError | NotADirectoryError

record config =
  include_files :: "string list option"
  exclude_files :: "string set"
  exclude_dirs :: "string set"
  exclude_patterns :: "string list"
  root_dir :: path
  output_file :: string

text \<open>\<^verbatim>\<open>Path.name\<close>: the last component, the empty string for the anchor itself.\<close>

definition name :: "path \<Rightarrow> string" where
  "name p = (if p = [] then [] else last p)"

text \<open>\<^verbatim>\<open>str.startswith\<close>.\<close>

definition startswith :: "string \<Rightarrow> string \<Rightarrow> bool" where
  "startswith s pre = prefix pre s"

text \<open>\<^verbatim>\<open>Path.relative_to\<close>: raises \<^verbatim>\<open>ValueError\<close> unless the other path is a
  prefix of this one.\<close>

definition relative_to :: "path \<Rightarrow> path \<Rightarrow> error + path" where
  "relative_to p other =
     (if prefix other p then Inr (drop (length other) p) else Inl ValueError)"

text \<open>\<^verbatim>\<open>sep.join(parts)\<close> and \<^verbatim>\<open>s.split(sep)\<close> for a one-character separator.\<close>

fun join :: "char \<Rightarrow> string list \<Rightarrow> string" where
  "join sep [] = []"
| "join sep [x] = x"
| "join sep (x # y # ys) = x @ sep # join sep (y # ys)"

fun py_split :: "char \<Rightarrow> string \<Rightarrow> string list" where
  "py_split sep [] = [[]]"
| "py_split sep (c # cs) =
     (if c = sep then [] # py_split sep cs
      else (case py_split sep cs of [] \<Rightarrow> [[c]] | w # ws \<Rightarrow> (c # w) # ws))"

text \<open>\<^verbatim>\<open>str(p)\<close> for a relative path: \<^verbatim>\<open>.\<close> when it has no component.\<close>

definition str :: "path \<Rightarrow> string" where
  "str rel = (if rel = [] then ''.'' else join CHR ''/'' rel)"

section \<open>Glob matching\<close>

text \<open>
  \<^verbatim>\<open>fnmatch.fnmatch\<close> belongs to the Python standard library, not to the repository.
  The Filter Policy below therefore takes the matcher as its first argument \<open>fnm\<close>
  (candidate string first, pattern second), and the theorems hold for every matcher.
\<close>

type_synonym matcher = "string \<Rightarrow> string \<Rightarrow> bool"

text \<open>
  Modelled from the spec: the glob matcher of the standard library, \<open>fnmatch\<close>, used
  where a concrete matcher is needed.  It matches the whole candidate string; \<^verbatim>\<open>*\<close> is
  any run of characters, \<^verbatim>\<open>?\<close> exactly one character, \<^verbatim>\<open>[...]\<close> a character class
  (\<^verbatim>\<open>!\<close> negates, \<^verbatim>\<open>a-z\<close> is a range, a \<^verbatim>\<open>]\<close> directly after the opening is a
  member, an unclosed \<^verbatim>\<open>[\<close> is literal); matching is case-sensitive, as on POSIX.
\<close>

fun class_items :: "string \<Rightarrow> (char \<times> char) list" where
  "class_items (lo # m # hi # rest) =
     (if m = CHR ''-'' then (lo, hi) # class_items rest
      else (lo, lo) # class_items (m # hi # rest))"
| "class_items (c # rest) = (c, c) # class_items rest"
| "class_items [] = []"

definition in_class :: "char \<Rightarrow> (char \<times> char) list \<Rightarrow> bool" where
  "in_class c items = list_ex (\<lambda>(lo, hi). lo \<le> c \<and> c \<le> hi) items"

text \<open>The text after an opening bracket: whether the class is negated, its members,
  and the pattern after the closing bracket; \<open>None\<close> when the bracket is never closed.\<close>

definition bracket :: "string \<Rightarrow> (bool \<times> string \<times> string) option" where
  "bracket ps =
     (let neg = (ps \<noteq> [] \<and> hd ps = CHR ''!'');
          q = (if neg then tl ps else ps);
          fst_close = (q \<noteq> [] \<and> hd q = CHR '']'');
          r = (if fst_close then tl q else q)
      in if CHR '']'' \<in> set r
         then Some (neg,
                    (if fst_close then '']'' else []) @ takeWhile (\<lambda>c. c \<noteq> CHR '']'') r,
                    tl (dropWhile (\<lambda>c. c \<noteq> CHR '']'') r))
         else None)"

lemma bracket_rest_shorter:
  assumes "bracket ps = Some (neg, stuff, rest)"
  shows "length rest \<le> length ps"
proof -
  have d: "length (dropWhile P r) \<le> length r" for P and r :: string
    by (rule length_dropWhile_le)
  from assms show ?thesis
    unfolding bracket_def Let_def
    using d [of "\<lambda>c. c \<noteq> CHR '']''" ps] d [of "\<lambda>c. c \<noteq> CHR '']''" "tl ps"]
      d [of "\<lambda>c. c \<noteq> CHR '']''" "tl (tl ps)"]
    by (auto split: if_splits)
qed

function glob :: "string \<Rightarrow> string \<Rightarrow> bool" where
  "glob [] s = (s = [])"
| "glob (p # ps) s =
     (if p = CHR ''*'' then
        (glob ps s \<or> (case s of [] \<Rightarrow> False | c # cs \<Rightarrow> glob (p # ps) cs))
      else if p = CHR ''?'' then
        (case s of [] \<Rightarrow> False | c # cs \<Rightarrow> glob ps cs)
      else if p = CHR ''['' then
        (case bracket ps of
           None \<Rightarrow> (case s of [] \<Rightarrow> False | c # cs \<Rightarrow> c = CHR ''['' \<and> glob ps cs)
         | Some (neg, stuff, rest) \<Rightarrow>
             (case s of [] \<Rightarrow> False
              | c # cs \<Rightarrow> (in_class c (class_items stuff) \<noteq> neg) \<and> glob rest cs))
      else (case s of [] \<Rightarrow> False | c # cs \<Rightarrow> c = p \<and> glob ps cs))"
  by pat_completeness auto
termination
  by (relation "measure (\<lambda>(p, s). length p + length s)")
     (auto dest: bracket_rest_shorter)

definition fnmatch :: matcher where
  "fnmatch nm pat = glob pat nm"

section \<open>Filter Policy\<close>

text \<open>The pattern loop of \<^verbatim>\<open>should_exclude_dir\<close> (lines 39-52); the inner loop over
  \<^verbatim>\<open>range(len(path_parts))\<close> tests \<^verbatim>\<open>"/".join(path_parts[: i + 1])\<close>.\<close>

definition partial_paths :: "string \<Rightarrow> string list" where
  "partial_paths relative_path =
     (let path_parts = py_split CHR ''/'' relative_path
      in map (\<lambda>i. join CHR ''/'' (take (i + 1) path_parts)) [0 ..< length path_parts])"

fun dir_pattern_loop :: "matcher \<Rightarrow> string \<Rightarrow> string \<Rightarrow> string list \<Rightarrow> bool" where
  "dir_pattern_loop fnm nm relative_path [] = False"
| "dir_pattern_loop fnm nm relative_path (pattern # patterns) =
     (if fnm nm pattern \<or> fnm relative_path pattern then True
      else if CHR ''/'' \<in> set pattern
              \<and> list_ex (\<lambda>partial_path. fnm partial_path pattern) (partial_paths relative_path)
           then True
      else dir_pattern_loop fnm nm relative_path patterns)"

definition should_exclude_dir :: "matcher \<Rightarrow> config \<Rightarrow> path \<Rightarrow> error + bool" where
  "should_exclude_dir fnm cfg dir_path =
     (if startswith (name dir_path) ''.'' then Inr True
      else case relative_to dir_path (root_dir cfg) of
        Inl e \<Rightarrow> Inl e
      | Inr rel \<Rightarrow>
          (let relative_path = str rel
           in if relative_path \<in> exclude_dirs cfg \<or> name dir_path \<in> exclude_dirs cfg
              then Inr True
              else Inr (dir_pattern_loop fnm (name dir_path) relative_path
                          (exclude_patterns cfg))))"

text \<open>The pattern loop of \<^verbatim>\<open>should_exclude_file\<close> (lines 74-83), with its three tests
  in the order of the source.\<close>

fun file_pattern_loop :: "matcher \<Rightarrow> string \<Rightarrow> string \<Rightarrow> string list \<Rightarrow> bool" where
  "file_pattern_loop fnm nm rel_path_str [] = False"
| "file_pattern_loop fnm nm rel_path_str (pattern # patterns) =
     (if fnm nm pattern then True
      else if fnm rel_path_str pattern then True
      else if CHR ''/'' \<in> set pattern \<and> fnm rel_path_str pattern then True
      else file_pattern_loop fnm nm rel_path_str patterns)"

definition should_exclude_file :: "matcher \<Rightarrow> config \<Rightarrow> path \<Rightarrow> error + bool" where
  "should_exclude_file fnm cfg file_path =
     (if startswith (name file_path) ''.'' then Inr True
      else if name file_path = output_file cfg then Inr True
      else case relative_to file_path (root_dir cfg) of
        Inl e \<Rightarrow> Inl e
      | Inr rel \<Rightarrow>
          (let rel_path_str = str rel
           in if rel_path_str \<in> exclude_files cfg then Inr True
              else if file_pattern_loop fnm (name file_path) rel_path_str (exclude_patterns cfg)
              then Inr True
              else (case include_files cfg of
                      Some incl \<Rightarrow> Inr (rel_path_str \<notin> set incl)
                    | None \<Rightarrow> Inr False)))"

section \<open>The filesystem\<close>

text \<open>
  What the host filesystem holds at a path, as the traversals observe it through
  \<^verbatim>\<open>is_dir\<close>, \<^verbatim>\<open>is_file\<close> and \<^verbatim>\<open>iterdir\<close>: a regular file; something that is
  neither a regular file nor a directory (a dangling symlink, a socket, a FIFO); a
  directory whose listing raises \<^verbatim>\<open>PermissionError\<close>; an entry whose \<^verbatim>\<open>stat\<close> is
  denied (an entry of a directory that may be read but not searched, a symlink into
  such a directory), for which \<^verbatim>\<open>Path.is_file()\<close> and \<^verbatim>\<open>Path.is_dir()\<close> raise
  \<^verbatim>\<open>PermissionError\<close>; or a directory with its children by name, in the order in
  which the system lists them.  Symlink cycles are outside the model (a non-goal of the
  spec), and the filesystem does not change during a traversal.
\<close>

datatype node = File | Other | Locked | Denied | Dir "(string \<times> node) list"

fun is_dir :: "node \<Rightarrow> error + bool" where
  "is_dir (Dir kids) = Inr True"
| "is_dir Locked = Inr True"
| "is_dir File = Inr False"
| "is_dir Other = Inr False"
| "is_dir Denied = Inl PermissionError"

fun is_file :: "node \<Rightarrow> error + bool" where
  "is_file File = Inr True"
| "is_file Other = Inr False"
| "is_file Locked = Inr False"
| "is_file (Dir kids) = Inr False"
| "is_file Denied = Inl PermissionError"

text \<open>\<^verbatim>\<open>path.iterdir()\<close>: the children as paths, each with what the filesystem holds there.\<close>

fun iterdir :: "path \<Rightarrow> node \<Rightarrow> error + (path \<times> node) list" where
  "iterdir path (Dir kids) = Inr (map (\<lambda>(n, c). (path @ [n], c)) kids)"
| "iterdir path Locked = Inl PermissionError"
| "iterdir path Denied = Inl PermissionError"
| "iterdir path File = Inl NotADirectoryError"
| "iterdir path Other = Inl NotADirectoryError"

section \<open>Sorting\<close>

text \<open>
  \<^verbatim>\<open>sorted(xs, key=f)\<close>: the key of every element is computed first, in the order of
  the list, and the first exception raised by a key is the exception of the call;
  the elements are then sorted by their keys alone, and the sort is stable (as
  \<open>sort_key\<close> is).
\<close>

fun keys_of :: "('a \<Rightarrow> error + 'k) \<Rightarrow> 'a list \<Rightarrow> error + ('k \<times> 'a) list" where
  "keys_of key [] = Inr []"
| "keys_of key (x # xs) =
     (case key x of
        Inl err \<Rightarrow> Inl err
      | Inr k \<Rightarrow>
          (case keys_of key xs of
             Inl err \<Rightarrow> Inl err
           | Inr kxs \<Rightarrow> Inr ((k, x) # kxs)))"

definition py_sorted :: "('a \<Rightarrow> error + 'k :: linorder) \<Rightarrow> 'a list \<Rightarrow> error + 'a list" where
  "py_sorted key xs =
     (case keys_of key xs of
        Inl err \<Rightarrow> Inl err
      | Inr kxs \<Rightarrow> Inr (map snd (sort_key fst kxs)))"

text \<open>
  \<^verbatim>\<open>str.lower\<close> belongs to the language, and its case mapping is that of Unicode, which
  is not part of the repository.  The traversals below therefore take it as their
  second argument \<open>low\<close>, and the theorems hold for every such function.  Strings are
  compared position by position, as Python compares them by code point.

  The two sort keys are \<^verbatim>\<open>lambda x: (x.is_file(), x.name.lower())\<close> of the tree (line
  106), which raises when \<^verbatim>\<open>is_file\<close> does, and \<^verbatim>\<open>lambda x: x.name.lower()\<close> of the
  collection (line 146), which raises nothing.
\<close>

definition tree_key :: "(string \<Rightarrow> string) \<Rightarrow> path \<times> node \<Rightarrow> error + bool \<times> string" where
  "tree_key low x =
     (case is_file (snd x) of
        Inl err \<Rightarrow> Inl err
      | Inr f \<Rightarrow> Inr (f, low (name (fst x))))"

definition name_key :: "(string \<Rightarrow> string) \<Rightarrow> path \<times> node \<Rightarrow> string" where
  "name_key low x = low (name (fst x))"

section \<open>Tree Renderer\<close>

text \<open>The glyphs of the tree, as UTF-8 bytes: U+2514, U+251C, U+2500, U+2502.\<close>

definition newline :: string where
  "newline = [CHR 0x0A]"

definition connector :: "bool \<Rightarrow> string" where
  "connector is_last =
     (if is_last
      then [CHR 0xE2, CHR 0x94, CHR 0x94, CHR 0xE2, CHR 0x94, CHR 0x80,
            CHR 0xE2, CHR 0x94, CHR 0x80, CHR '' '']
      else [CHR 0xE2, CHR 0x94, CHR 0x9C, CHR 0xE2, CHR 0x94, CHR 0x80,
            CHR 0xE2, CHR 0x94, CHR 0x80, CHR '' ''])"

definition indent :: "bool \<Rightarrow> string" where
  "indent is_last =
     (if is_last then ''    '' else [CHR 0xE2, CHR 0x94, CHR 0x82, CHR '' '', CHR '' '', CHR '' ''])"

text \<open>The filter loop of lines 110-116, appending the surviving entries in order.\<close>

fun filter_entries ::
  "matcher \<Rightarrow> config \<Rightarrow> (path \<times> node) list \<Rightarrow> error + (path \<times> node) list" where
  "filter_entries fnm cfg [] = Inr []"
| "filter_entries fnm cfg (entry # rest) =
     (case is_dir (snd entry) of
        Inl err \<Rightarrow> Inl err
      | Inr d \<Rightarrow>
          (case (if d then should_exclude_dir fnm cfg (fst entry)
                 else should_exclude_file fnm cfg (fst entry)) of
             Inl err \<Rightarrow> Inl err
           | Inr excluded \<Rightarrow>
               (case filter_entries fnm cfg rest of
                  Inl err \<Rightarrow> Inl err
                | Inr entries \<Rightarrow> Inr (if excluded then entries else entry # entries))))"

text \<open>\<^verbatim>\<open>except PermissionError: pass\<close>: the value accumulated so far is returned; any
  other exception propagates.\<close>

definition except_PermissionError :: "'a \<Rightarrow> error \<Rightarrow> error + 'a" where
  "except_PermissionError acc err = (if err = PermissionError then Inr acc else Inl err)"

lemma sum_list_insort_key:
  "sum_list (map f (insort_key k x xs)) = f x + sum_list (map (f :: 'a \<Rightarrow> nat) xs)"
  by (induction xs) auto

lemma sum_list_sort_key:
  "sum_list (map f (sort_key k xs)) = sum_list (map (f :: 'a \<Rightarrow> nat) xs)"
  by (induction xs) (auto simp: sum_list_insort_key)

lemma keys_of_snd: "keys_of key xs = Inr kxs \<Longrightarrow> map snd kxs = xs"
  by (induction xs arbitrary: kxs) (auto split: sum.splits)

lemma sum_list_py_sorted:
  assumes "py_sorted key xs = Inr ys"
  shows "sum_list (map f ys) = sum_list (map (f :: 'a \<Rightarrow> nat) xs)"
proof -
  from assms obtain kxs where k: "keys_of key xs = Inr kxs" "ys = map snd (sort_key fst kxs)"
    by (auto simp: py_sorted_def split: sum.splits)
  have "sum_list (map f ys) = sum_list (map (f \<circ> snd) (sort_key fst kxs))"
    by (simp add: k(2))
  also have "\<dots> = sum_list (map (f \<circ> snd) kxs)"
    by (rule sum_list_sort_key)
  also have "\<dots> = sum_list (map f (map snd kxs))"
    by simp
  finally show ?thesis
    by (simp add: keys_of_snd [OF k(1)])
qed

lemma sum_list_filter_entries:
  "filter_entries fnm cfg xs = Inr ys \<Longrightarrow>
     sum_list (map f ys) \<le> sum_list (map (f :: path \<times> node \<Rightarrow> nat) xs)"
proof (induction xs arbitrary: ys)
  case Nil
  then show ?case by simp
next
  case (Cons x xs)
  then show ?case
    by (auto split: sum.splits if_splits intro: trans_le_add2)
qed

lemma sum_list_enumerate:
  "sum_list (map (\<lambda>(i, x). f x) (enumerate n xs)) = sum_list (map (f :: 'a \<Rightarrow> nat) xs)"
  by (induction xs arbitrary: n) auto

lemma sum_list_iterdir:
  "iterdir path e = Inr listing \<Longrightarrow>
     sum_list (map (\<lambda>x. Suc (size (snd x))) listing) < size e"
proof (cases e)
  case (Dir kids)
  assume "iterdir path e = Inr listing"
  with Dir have l: "listing = map (\<lambda>(n, c). (path @ [n], c)) kids" by auto
  have "sum_list (map (\<lambda>x. Suc (size (snd x))) (map (\<lambda>(n, c). (path @ [n], c)) ks))
          \<le> size_list (size_prod (\<lambda>_. 0) size) ks" for ks :: "(string \<times> node) list"
    by (induction ks) auto
  with l Dir show ?thesis by (simp add: less_Suc_eq_le)
qed auto

text \<open>
  \<^verbatim>\<open>generate_tree_structure\<close> (lines 91-134).  The text of the node's own line calls
  \<^verbatim>\<open>path.is_dir()\<close> unless the node is the root (lines 95-100), and line 103 calls it
  again, both outside the \<^verbatim>\<open>try\<close>.  The loop of lines 119-129 is \<open>render_entries\<close>:
  it runs over \<^verbatim>\<open>enumerate(entries)\<close> with \<open>n = len(entries)\<close>, carries \<^verbatim>\<open>tree_str\<close>,
  and returns it together with the exception that stopped it, if any, so that the
  handler of line 131 sees what had been accumulated.
\<close>

function generate_tree_structure ::
    "matcher \<Rightarrow> (string \<Rightarrow> string) \<Rightarrow> config \<Rightarrow> path \<Rightarrow> node \<Rightarrow> string \<Rightarrow> bool
       \<Rightarrow> error + string"
  and render_entries ::
    "matcher \<Rightarrow> (string \<Rightarrow> string) \<Rightarrow> config \<Rightarrow> string \<Rightarrow> nat \<Rightarrow> string
       \<Rightarrow> (nat \<times> path \<times> node) list \<Rightarrow> string \<times> error option"
  where
  "generate_tree_structure fnm low cfg path e pfx is_last =
     (case (if path = root_dir cfg then Inr (name path @ ''/'' @ newline)
            else case is_dir e of
              Inl err \<Rightarrow> Inl err
            | Inr d \<Rightarrow>
                Inr (pfx @ connector is_last @ name path @ (if d then ''/'' else []) @ newline)) of
        Inl err \<Rightarrow> Inl err
      | Inr tree_str \<Rightarrow>
          (case is_dir e of
             Inl err \<Rightarrow> Inl err
           | Inr d \<Rightarrow>
               if \<not> d then Inr tree_str
               else case should_exclude_dir fnm cfg path of
                 Inl err \<Rightarrow> Inl err
               | Inr excluded \<Rightarrow>
                   if excluded then Inr tree_str
                   else (case iterdir path e of
                      Inl err \<Rightarrow> except_PermissionError tree_str err
                    | Inr listing \<Rightarrow>
                        (case py_sorted (tree_key low) listing of
                           Inl err \<Rightarrow> except_PermissionError tree_str err
                         | Inr all_entries \<Rightarrow>
                             (case filter_entries fnm cfg all_entries of
                                Inl err \<Rightarrow> except_PermissionError tree_str err
                              | Inr entries \<Rightarrow>
                                  (let new_prefix =
                                         (if path = root_dir cfg then []
                                          else pfx @ indent is_last)
                                   in case render_entries fnm low cfg new_prefix (length entries)
                                             tree_str (enumerate 0 entries) of
                                        (tree_str', None) \<Rightarrow> Inr tree_str'
                                      | (tree_str', Some err) \<Rightarrow>
                                          except_PermissionError tree_str' err))))))"
| "render_entries fnm low cfg new_prefix n tree_str [] = (tree_str, None)"
| "render_entries fnm low cfg new_prefix n tree_str ((i, entry) # rest) =
     (let is_last_entry = (int i = int n - 1)
      in case generate_tree_structure fnm low cfg (fst entry) (snd entry) new_prefix
                is_last_entry of
           Inl err \<Rightarrow> (tree_str, Some err)
         | Inr s \<Rightarrow> render_entries fnm low cfg new_prefix n (tree_str @ s) rest)"
  by pat_completeness auto
termination
proof (relation "measure (\<lambda>x. case x of
           Inl (fnm, low, cfg, path, e, pfx, is_last) \<Rightarrow> size e
         | Inr (fnm, low, cfg, new_prefix, n, tree_str, es) \<Rightarrow>
             sum_list (map (\<lambda>(i, x). Suc (size (snd x))) es))", goal_cases)
  case 1
  show ?case by simp
next
  case (2 fnm low cfg path e pfx is_last tree_str d excluded listing all_entries entries
      new_prefix)
  have "sum_list (map (\<lambda>(i, x). Suc (size (snd x))) (enumerate 0 entries))
          = sum_list (map (\<lambda>x. Suc (size (snd x))) entries)"
    by (rule sum_list_enumerate)
  also have "\<dots> \<le> sum_list (map (\<lambda>x. Suc (size (snd x))) all_entries)"
    using 2 by (intro sum_list_filter_entries) simp
  also have "\<dots> = sum_list (map (\<lambda>x. Suc (size (snd x))) listing)"
    using 2 by (intro sum_list_py_sorted) simp
  also have "\<dots> < size e"
    using 2 by (intro sum_list_iterdir) simp
  finally show ?case by simp
next
  case 3
  then show ?case by (simp split: prod.splits)
next
  case 4
  then show ?case by simp
qed

section \<open>File Collector\<close>

text \<open>
  \<^verbatim>\<open>collect_files\<close> (lines 136-151).  \<^verbatim>\<open>path.is_file()\<close> (line 140) and
  \<^verbatim>\<open>path.is_dir()\<close> (line 143) are called outside the \<^verbatim>\<open>try\<close>.  The loop of lines
  146-147 is \<open>collect_entries\<close>, carrying \<^verbatim>\<open>files\<close> as \<open>render_entries\<close> carries the
  text.
\<close>

function collect_files ::
    "matcher \<Rightarrow> (string \<Rightarrow> string) \<Rightarrow> config \<Rightarrow> path \<Rightarrow> node \<Rightarrow> error + path list"
  and collect_entries ::
    "matcher \<Rightarrow> (string \<Rightarrow> string) \<Rightarrow> config \<Rightarrow> path list \<Rightarrow> (path \<times> node) list
       \<Rightarrow> path list \<times> error option"
  where
  "collect_files fnm low cfg path e =
     (let files = []
      in case is_file e of
        Inl err \<Rightarrow> Inl err
      | Inr f \<Rightarrow>
          if f then
            (case should_exclude_file fnm cfg path of
               Inl err \<Rightarrow> Inl err
             | Inr excluded \<Rightarrow> Inr (if \<not> excluded then files @ [path] else files))
          else (case is_dir e of
             Inl err \<Rightarrow> Inl err
           | Inr d \<Rightarrow>
               if d then
                 (case should_exclude_dir fnm cfg path of
                    Inl err \<Rightarrow> Inl err
                  | Inr excluded \<Rightarrow>
                      if excluded then Inr files
                      else (case iterdir path e of
                         Inl err \<Rightarrow> except_PermissionError files err
                       | Inr listing \<Rightarrow>
                           (case collect_entries fnm low cfg files
                                   (sort_key (name_key low) listing) of
                              (files', None) \<Rightarrow> Inr files'
                            | (files', Some err) \<Rightarrow> except_PermissionError files' err)))
               else Inr files))"
| "collect_entries fnm low cfg files [] = (files, None)"
| "collect_entries fnm low cfg files (entry # rest) =
     (case collect_files fnm low cfg (fst entry) (snd entry) of
        Inl err \<Rightarrow> (files, Some err)
      | Inr found \<Rightarrow> collect_entries fnm low cfg (files @ found) rest)"
  by pat_completeness auto
termination
proof (relation "measure (\<lambda>x. case x of
           Inl (fnm, low, cfg, path, e) \<Rightarrow> size e
         | Inr (fnm, low, cfg, files, es) \<Rightarrow> sum_list (map (\<lambda>x. Suc (size (snd x))) es))",
       goal_cases)
  case 1
  show ?case by simp
next
  case (2 fnm low cfg path e files f d excluded listing)
  have "sum_list (map (\<lambda>x. Suc (size (snd x))) (sort_key (name_key low) listing))
          = sum_list (map (\<lambda>x. Suc (size (snd x))) listing)"
    by (rule sum_list_sort_key)
  also have "\<dots> < size e"
    using 2 by (intro sum_list_iterdir) simp
  finally show ?case by simp
next
  case 3
  then show ?case by (simp split: prod.splits)
next
  case 4
  then show ?case by simp
qed

section \<open>The traversals as the specification describes them\<close>

text \<open>
  The specification speaks of visibility: \<open>isDirectoryVisible\<close> and \<open>isFileVisible\<close>
  are the negations of the two predicates of the Filter Policy, and an entry met during
  a traversal is tested by the one of its kind (a directory, or anything else).
\<close>

definition is_visible :: "matcher \<Rightarrow> config \<Rightarrow> path \<times> node \<Rightarrow> bool" where
  "is_visible fnm cfg entry =
     (if is_dir (snd entry) = Inr True then should_exclude_dir fnm cfg (fst entry) = Inr False
      else should_exclude_file fnm cfg (fst entry) = Inr False)"

text \<open>The order of the tree among entries whose kind can be determined: whether the
  entry is a regular file, then the lower-case name.\<close>

definition kind_key :: "(string \<Rightarrow> string) \<Rightarrow> path \<times> node \<Rightarrow> bool \<times> string" where
  "kind_key low x = (is_file (snd x) = Inr True, low (name (fst x)))"

text \<open>An entry whose \<^verbatim>\<open>stat\<close> is denied, and a tree that holds none.\<close>

definition denied :: "path \<times> node \<Rightarrow> bool" where
  "denied x = (snd x = Denied)"

primrec no_denied :: "node \<Rightarrow> bool" where
  "no_denied File = True"
| "no_denied Other = True"
| "no_denied Locked = True"
| "no_denied Denied = False"
| "no_denied (Dir kids) = list_all snd (map (map_prod id no_denied) kids)"

text \<open>
  A line of the tree: the inherited prefix, whether the node is the last of its
  surviving siblings, its path and what the filesystem holds there.  \<open>render_line\<close> is
  the text of lines 95-100 for it.
\<close>

type_synonym line = "string \<times> bool \<times> path \<times> node"

definition render_line :: "config \<Rightarrow> line \<Rightarrow> string" where
  "render_line cfg l =
     (case l of (pfx, is_last, path, e) \<Rightarrow>
        if path = root_dir cfg then name path @ ''/'' @ newline
        else pfx @ connector is_last @ name path
               @ (if is_dir e = Inr True then ''/'' else []) @ newline)"

lemma iterdir_smaller:
  "iterdir path e = Inr listing \<Longrightarrow> x \<in> set listing \<Longrightarrow> size (snd x) < size e"
  using sum_list_iterdir [of path e listing]
    member_le_sum_list [of "Suc (size (snd x))" "map (\<lambda>x. Suc (size (snd x))) listing"]
  by auto

text \<open>
  The lines of the tree in the words of section 4.2 of the specification: the node
  itself, then, when it is a visible directory that can be listed, the lines of its
  visible children, ordered by \<open>kind_key\<close>, the last of them marked.
  \<open>generate_tree_structure\<close> is compared with it below.
\<close>

function rendered_lines ::
  "matcher \<Rightarrow> (string \<Rightarrow> string) \<Rightarrow> config \<Rightarrow> path \<Rightarrow> node \<Rightarrow> string \<Rightarrow> bool \<Rightarrow> line list"
  where
  "rendered_lines fnm low cfg path e pfx is_last =
     (pfx, is_last, path, e) #
     (if is_dir e = Inr True \<and> should_exclude_dir fnm cfg path = Inr False then
        (case iterdir path e of
           Inl err \<Rightarrow> []
         | Inr listing \<Rightarrow>
             (let entries = filter (is_visible fnm cfg) (sort_key (kind_key low) listing);
                  new_prefix = (if path = root_dir cfg then [] else pfx @ indent is_last)
              in concat (map (\<lambda>(i, entry).
                    rendered_lines fnm low cfg (fst entry) (snd entry) new_prefix
                      (Suc i = length entries))
                  (enumerate 0 entries))))
      else [])"
  by pat_completeness auto
termination
proof (relation "measure (\<lambda>(fnm, low, cfg, path, e, pfx, is_last). size e)", goal_cases)
  case 1
  show ?case by simp
next
  case (2 fnm low cfg path e pfx is_last listing entries new_prefix ie i entry)
  then have "(i, entry) \<in> set (enumerate 0 entries)"
    by simp
  then have "entry \<in> set entries"
    by (auto simp: in_set_enumerate_eq)
  moreover from 2 have "entries = filter (is_visible fnm cfg) (sort_key (kind_key low) listing)"
    by simp
  then have "set entries \<subseteq> set listing"
    by auto
  ultimately have "entry \<in> set listing"
    by blast
  moreover from 2 have "iterdir path e = Inr listing"
    by simp
  ultimately have "size (snd entry) < size e"
    by (rule iterdir_smaller [rotated])
  then show ?case
    by simp
qed

text \<open>
  The file lines of a tree are the lines rendered without a trailing \<^verbatim>\<open>/\<close>: those of
  the nodes other than the root that are not directories.  Among them are the lines of
  the regular files.
\<close>

definition line_path :: "line \<Rightarrow> path" where
  "line_path l = fst (snd (snd l))"

definition line_node :: "line \<Rightarrow> node" where
  "line_node l = snd (snd (snd l))"

definition file_lines :: "config \<Rightarrow> line list \<Rightarrow> path list" where
  "file_lines cfg ls =
     map line_path
       (filter (\<lambda>l. line_path l \<noteq> root_dir cfg \<and> is_dir (line_node l) \<noteq> Inr True) ls)"

definition regular_file_lines :: "line list \<Rightarrow> path list" where
  "regular_file_lines ls = map line_path (filter (\<lambda>l. is_file (line_node l) = Inr True) ls)"

text \<open>The same filesystem with every directory that cannot be listed replaced by an
  empty directory.\<close>

primrec unlock :: "node \<Rightarrow> node" where
  "unlock File = File"
| "unlock Other = Other"
| "unlock Locked = Dir []"
| "unlock Denied = Denied"
| "unlock (Dir kids) = Dir (map (map_prod id unlock) kids)"

declare generate_tree_structure.simps [simp del]
declare collect_files.simps [simp del]
declare rendered_lines.simps [simp del]

section \<open>Example inputs\<close>

text \<open>The configuration of \<^verbatim>\<open>__init__\<close> (lines 17-23), with the root at
  \<^verbatim>\<open>/home/proj\<close>.\<close>

definition example_cfg :: config where
  "example_cfg =
     \<lparr>include_files = None, exclude_files = {}, exclude_dirs = {}, exclude_patterns = [],
      root_dir = [''home'', ''proj''], output_file = ''code2md_output.md''\<rparr>"

text \<open>Modelled from the spec: \<^verbatim>\<open>str.lower\<close> restricted to names made of ASCII
  characters, where it maps the letters A-Z to a-z and leaves every other character.
  It is the \<open>low\<close> of the examples below, all of whose names are ASCII; the theorems
  about the traversals are stated for every \<open>low\<close>.\<close>

definition ascii_lower_char :: "char \<Rightarrow> char" where
  "ascii_lower_char c =
     (if CHR ''A'' \<le> c \<and> c \<le> CHR ''Z'' then char_of (of_char c + (32 :: nat)) else c)"

definition ascii_lower :: "string \<Rightarrow> string" where
  "ascii_lower s = map ascii_lower_char s"

text \<open>A small tree: regular files, a hidden file, an entry that is neither a file nor a
  directory, a subdirectory and a directory that cannot be listed.\<close>

definition example_tree :: node where
  "example_tree =
     Dir [(''readme.md'', File), (''.secret'', File), (''link'', Other),
          (''b'', Dir [(''x.py'', File)]), (''a.txt'', File), (''priv'', Locked)]"

text \<open>A directory on which the two sibling orders differ.\<close>

definition example_dir :: node where
  "example_dir = Dir [(''a.txt'', File), (''b'', Dir [(''x.py'', File)])]"

text \<open>Names in both cases, listed in no particular order.\<close>

definition mixed_case_dir :: node where
  "mixed_case_dir =
     Dir [(''b.txt'', File), (''Zed'', Dir []), (''a.txt'', File), (''C.txt'', File),
          (''docs'', Dir [(''x.py'', File)])]"

text \<open>A file, an entry whose \<^verbatim>\<open>stat\<close> is denied, and another file.\<close>

definition denied_dir :: node where
  "denied_dir = Dir [(''a.txt'', File), (''m'', Denied), (''z.txt'', File)]"

section \<open>Properties of the Filter Policy\<close>

lemma dir_pattern_loop_iff:
  "dir_pattern_loop fnm nm rel ps \<longleftrightarrow>
     (\<exists>pattern \<in> set ps. fnm nm pattern \<or> fnm rel pattern
        \<or> (CHR ''/'' \<in> set pattern \<and> (\<exists>pp \<in> set (partial_paths rel). fnm pp pattern)))"
  by (induction ps) (auto simp: list_ex_iff)

lemma file_pattern_loop_iff:
  "file_pattern_loop fnm nm rel ps \<longleftrightarrow>
     (\<exists>pattern \<in> set ps. fnm nm pattern \<or> fnm rel pattern)"
  by (induction ps) auto

lemma py_split_not_Nil: "py_split sep s \<noteq> []"
  by (induction s) (auto split: list.splits)

lemma py_split_no_sep: "sep \<notin> set x \<Longrightarrow> py_split sep x = [x]"
  by (induction x) auto

lemma py_split_append_sep:
  "sep \<notin> set x \<Longrightarrow> py_split sep (x @ sep # s) = x # py_split sep s"
  by (induction x) (auto simp: py_split_not_Nil split: list.splits)

text \<open>Splitting the text of a relative path gives its components back, as no
  component of a path holds the separator.\<close>

lemma py_split_join:
  "parts \<noteq> [] \<Longrightarrow> \<forall>x \<in> set parts. sep \<notin> set x \<Longrightarrow> py_split sep (join sep parts) = parts"
  by (induction sep parts rule: join.induct) (auto simp: py_split_no_sep py_split_append_sep)

lemma partial_paths_str:
  assumes "rel \<noteq> []" "\<forall>x \<in> set rel. CHR ''/'' \<notin> set x"
  shows "partial_paths (str rel) = map (\<lambda>i. str (take (i + 1) rel)) [0 ..< length rel]"
  using assms by (simp add: partial_paths_def str_def py_split_join)

lemma prefix_in_partial_paths:
  assumes "\<forall>x \<in> set rel. CHR ''/'' \<notin> set x" "prefix pre rel" "pre \<noteq> []"
  shows "str pre \<in> set (partial_paths (str rel))"
proof -
  from assms have ne: "rel \<noteq> []" by auto
  from assms(2) obtain zs where zs: "rel = pre @ zs"
    by (auto simp: prefix_def)
  from assms(3) obtain n where len: "length pre = Suc n"
    by (cases pre) auto
  with zs have n: "pre = take (Suc n) rel" "n < length rel"
    by auto
  show ?thesis
    unfolding partial_paths_str [OF ne assms(1)] using n by auto
qed

text \<open>
  Claim C2.  For a file under the root and a configuration whose \<open>include_files\<close> is
  set, \<^verbatim>\<open>should_exclude_file\<close> answers True as soon as one of the exclusion rules
  applies (hidden name, output filename, exclude list, a pattern matching the bare
  name or the relative path), whatever the include list holds; when none applies it
  answers True exactly when the relative path is absent from \<open>include_files\<close>.  So
  such a file is visible exactly when its relative path is a member of the include
  list, and the include list is consulted only after the exclusion rules.
\<close>

theorem include_files_dominance:
  assumes "relative_to file_path (root_dir cfg) = Inr rel"
    and "include_files cfg = Some incl"
  shows "should_exclude_file fnm cfg file_path =
     Inr (if startswith (name file_path) ''.'' \<or> name file_path = output_file cfg
             \<or> str rel \<in> exclude_files cfg
             \<or> (\<exists>pattern \<in> set (exclude_patterns cfg).
                   fnm (name file_path) pattern \<or> fnm (str rel) pattern)
          then True else str rel \<notin> set incl)"
  using assms by (simp add: should_exclude_file_def file_pattern_loop_iff Let_def)

theorem include_files_dominance_witness:
  "relative_to [''home'', ''proj'', ''src'', ''main.py''] (root_dir example_cfg) = Inr [''src'', ''main.py'']
   \<and> include_files (example_cfg\<lparr>include_files := Some [''src/main.py'']\<rparr>) = Some [''src/main.py'']
   \<and> should_exclude_file fnmatch (example_cfg\<lparr>include_files := Some [''src/main.py'']\<rparr>)
         [''home'', ''proj'', ''src'', ''main.py''] = Inr False
   \<and> should_exclude_file fnmatch (example_cfg\<lparr>include_files := Some [''src/main.py'']\<rparr>)
         [''home'', ''proj'', ''src'', ''util.py''] = Inr True"
  using include_files_dominance [of "[''home'', ''proj'', ''src'', ''main.py'']"
      "example_cfg\<lparr>include_files := Some [''src/main.py'']\<rparr>" "[''src'', ''main.py'']"
      "[''src/main.py'']" fnmatch]
    include_files_dominance [of "[''home'', ''proj'', ''src'', ''util.py'']"
      "example_cfg\<lparr>include_files := Some [''src/main.py'']\<rparr>" "[''src'', ''util.py'']"
      "[''src/main.py'']" fnmatch]
  by (simp add: example_cfg_def relative_to_def name_def startswith_def str_def)

text \<open>
  Claim C3.  A file whose bare name equals the configured output filename is excluded
  by \<^verbatim>\<open>should_exclude_file\<close>, for every configuration, every matcher and every
  path, hence also when its relative path is listed in \<open>include_files\<close>.
\<close>

theorem output_file_always_excluded:
  "name file_path = output_file cfg \<Longrightarrow> should_exclude_file fnm cfg file_path = Inr True"
  by (simp add: should_exclude_file_def)

theorem output_file_always_excluded_witness:
  "name [''home'', ''proj'', ''code2md_output.md'']
     = output_file (example_cfg\<lparr>include_files := Some [''code2md_output.md'']\<rparr>)
   \<and> should_exclude_file fnmatch (example_cfg\<lparr>include_files := Some [''code2md_output.md'']\<rparr>)
         [''home'', ''proj'', ''code2md_output.md''] = Inr True"
  using output_file_always_excluded [of "[''home'', ''proj'', ''code2md_output.md'']"
      "example_cfg\<lparr>include_files := Some [''code2md_output.md'']\<rparr>" fnmatch]
  by (simp add: example_cfg_def name_def)

text \<open>
  Claim C4.  For a directory under the root and a pattern of \<open>exclude_patterns\<close>,
  \<^verbatim>\<open>should_exclude_dir\<close> answers True when the pattern holds a \<^verbatim>\<open>/\<close> and matches the
  text of some non-empty prefix of the directory's relative path (\<^verbatim>\<open>a\<close>, \<^verbatim>\<open>a/b\<close>,
  \<^verbatim>\<open>a/b/c\<close>, ...), and also when the pattern, with or without a \<^verbatim>\<open>/\<close>, matches the
  bare name or the whole relative path: the prefix test is added to the direct tests.
\<close>

theorem prefix_pattern_excludes_dir:
  assumes "relative_to dir_path (root_dir cfg) = Inr rel"
    and "\<forall>x \<in> set rel. CHR ''/'' \<notin> set x"
    and "pattern \<in> set (exclude_patterns cfg)"
    and "(CHR ''/'' \<in> set pattern
            \<and> (\<exists>pre. prefix pre rel \<and> pre \<noteq> [] \<and> fnm (str pre) pattern))
          \<or> fnm (name dir_path) pattern \<or> fnm (str rel) pattern"
  shows "should_exclude_dir fnm cfg dir_path = Inr True"
proof -
  have "dir_pattern_loop fnm (name dir_path) (str rel) (exclude_patterns cfg)"
    unfolding dir_pattern_loop_iff
    using assms(2,3,4) prefix_in_partial_paths by blast
  with assms(1) show ?thesis
    by (simp add: should_exclude_dir_def Let_def)
qed

theorem prefix_pattern_excludes_dir_witness:
  "relative_to [''home'', ''proj'', ''a'', ''b'', ''c''] (root_dir (example_cfg\<lparr>exclude_patterns := [''a/b'']\<rparr>))
     = Inr [''a'', ''b'', ''c'']
   \<and> list_all (\<lambda>x. CHR ''/'' \<notin> set x) [''a'', ''b'', ''c'']
   \<and> ''a/b'' \<in> set (exclude_patterns (example_cfg\<lparr>exclude_patterns := [''a/b'']\<rparr>))
   \<and> CHR ''/'' \<in> set ''a/b'' \<and> prefix [''a'', ''b''] [''a'', ''b'', ''c'']
   \<and> fnmatch (str [''a'', ''b'']) ''a/b''
   \<and> \<not> fnmatch (name [''home'', ''proj'', ''a'', ''b'', ''c'']) ''a/b''
   \<and> \<not> fnmatch (str [''a'', ''b'', ''c'']) ''a/b''
   \<and> should_exclude_dir fnmatch (example_cfg\<lparr>exclude_patterns := [''a/b'']\<rparr>)
         [''home'', ''proj'', ''a'', ''b'', ''c''] = Inr True"
proof -
  have m: "fnmatch (str [''a'', ''b'']) ''a/b''"
    by (simp add: fnmatch_def str_def)
  have h: "(CHR ''/'' \<in> set ''a/b''
            \<and> (\<exists>pre. prefix pre [''a'', ''b'', ''c''] \<and> pre \<noteq> [] \<and> fnmatch (str pre) ''a/b''))
          \<or> fnmatch (name [''home'', ''proj'', ''a'', ''b'', ''c'']) ''a/b''
          \<or> fnmatch (str [''a'', ''b'', ''c'']) ''a/b''"
    using m by (intro disjI1 conjI exI [of _ "[''a'', ''b'']"]) simp_all
  show ?thesis
    using m prefix_pattern_excludes_dir [of "[''home'', ''proj'', ''a'', ''b'', ''c'']"
        "example_cfg\<lparr>exclude_patterns := [''a/b'']\<rparr>" "[''a'', ''b'', ''c'']" "''a/b''" fnmatch, OF _ _ _ h]
    by (simp add: example_cfg_def relative_to_def name_def fnmatch_def str_def)
qed

text \<open>
  Claim C7.  For a path under the root directory (the paths for which
  \<^verbatim>\<open>relative_to\<close> is defined), and every configuration and matcher, both
  \<^verbatim>\<open>should_exclude_dir\<close> and \<^verbatim>\<open>should_exclude_file\<close> return a boolean: no exception
  is raised.  Both are total functions of the logic, as is the matcher \<open>fnmatch\<close>, so
  they terminate.
\<close>

theorem policy_never_raises:
  assumes "prefix (root_dir cfg) p"
  shows "(\<exists>b. should_exclude_dir fnm cfg p = Inr b) \<and> (\<exists>b. should_exclude_file fnm cfg p = Inr b)"
  using assms
  by (auto simp add: should_exclude_dir_def should_exclude_file_def relative_to_def Let_def
      split: option.splits)

theorem policy_never_raises_witness:
  "prefix (root_dir example_cfg) [''home'', ''proj'', ''src'']
   \<and> (\<exists>b. should_exclude_dir fnmatch example_cfg [''home'', ''proj'', ''src''] = Inr b)
   \<and> (\<exists>b. should_exclude_file fnmatch example_cfg [''home'', ''proj'', ''src''] = Inr b)"
proof -
  have h: "prefix (root_dir example_cfg) [''home'', ''proj'', ''src'']"
    by (simp add: example_cfg_def)
  from h policy_never_raises [OF h, of fnmatch] show ?thesis by simp
qed

text \<open>
  Claim C9.  A directory whose bare name starts with \<^verbatim>\<open>.\<close> is excluded by
  \<^verbatim>\<open>should_exclude_dir\<close>, whatever \<open>exclude_dirs\<close>, \<open>exclude_patterns\<close>,
  \<open>include_files\<close>, \<open>exclude_files\<close> and \<open>output_file\<close> hold, and wherever the
  directory lies.
\<close>

theorem hidden_dir_always_excluded:
  "startswith (name dir_path) ''.'' \<Longrightarrow> should_exclude_dir fnm cfg dir_path = Inr True"
  by (simp add: should_exclude_dir_def)

theorem hidden_dir_always_excluded_witness:
  "startswith (name [''home'', ''proj'', ''src'', ''.git'']) ''.''
   \<and> should_exclude_dir fnmatch example_cfg [''home'', ''proj'', ''src'', ''.git''] = Inr True"
proof -
  have h: "startswith (name [''home'', ''proj'', ''src'', ''.git'']) ''.''"
    by (simp add: name_def startswith_def)
  from h hidden_dir_always_excluded [OF h, of fnmatch example_cfg] show ?thesis by simp
qed

text \<open>
  Claim C10.  \<^verbatim>\<open>should_exclude_dir\<close> does not read \<open>include_files\<close>: two
  configurations that differ in \<open>include_files\<close> only give the same answer (or the same
  exception) for every directory path.
\<close>

theorem dir_visibility_ignores_include_files:
  "should_exclude_dir fnm (cfg\<lparr>include_files := a\<rparr>) dir_path
     = should_exclude_dir fnm (cfg\<lparr>include_files := b\<rparr>) dir_path"
  by (simp add: should_exclude_dir_def Let_def split: sum.splits)

theorem dir_visibility_ignores_include_files_witness:
  "should_exclude_dir fnmatch (example_cfg\<lparr>include_files := None\<rparr>) [''home'', ''proj'', ''src'']
     = should_exclude_dir fnmatch (example_cfg\<lparr>include_files := Some [''main.py'']\<rparr>)
         [''home'', ''proj'', ''src'']
   \<and> should_exclude_dir fnmatch (example_cfg\<lparr>include_files := None\<rparr>) [''home'', ''proj'', ''src'']
     = Inr False"
  using dir_visibility_ignores_include_files [where fnm = fnmatch and cfg = example_cfg
      and a = None and b = "Some [''main.py'']" and dir_path = "[''home'', ''proj'', ''src'']"]
  by (simp add: should_exclude_dir_def example_cfg_def name_def startswith_def relative_to_def
      str_def)

section \<open>The traversals below the root\<close>

text \<open>Paths met during a traversal that starts at the root lie under the root; there
  neither predicate of the Filter Policy raises, and a traversal raises only at a node
  whose kind cannot be determined.\<close>

lemma is_dir_True_iff: "is_dir e = Inr True \<longleftrightarrow> e = Locked \<or> (\<exists>kids. e = Dir kids)"
  by (cases e) auto

lemma is_file_True_iff: "is_file e = Inr True \<longleftrightarrow> e = File"
  by (cases e) auto

lemma is_dir_Inl_iff: "is_dir e = Inl err \<longleftrightarrow> e = Denied \<and> err = PermissionError"
  by (cases e) auto

lemma is_file_Inl_iff: "is_file e = Inl err \<longleftrightarrow> e = Denied \<and> err = PermissionError"
  by (cases e) auto

lemma is_dir_stat: "e \<noteq> Denied \<Longrightarrow> \<exists>d. is_dir e = Inr d"
  by (cases e) auto

lemma is_file_stat: "e \<noteq> Denied \<Longrightarrow> \<exists>f. is_file e = Inr f"
  by (cases e) auto

lemma exclude_dir_total:
  "prefix (root_dir cfg) p \<Longrightarrow> \<exists>b. should_exclude_dir fnm cfg p = Inr b"
  by (auto simp: should_exclude_dir_def relative_to_def Let_def)

lemma exclude_file_total:
  "prefix (root_dir cfg) p \<Longrightarrow> \<exists>b. should_exclude_file fnm cfg p = Inr b"
  by (auto simp: should_exclude_file_def relative_to_def Let_def split: option.splits)

lemma iterdir_Dir: "iterdir path e = Inr listing \<Longrightarrow> \<exists>kids. e = Dir kids"
  by (cases e) auto

lemma iterdir_under_root:
  assumes "iterdir path e = Inr listing" "prefix root path" "x \<in> set listing"
  shows "prefix root (fst x) \<and> fst x \<noteq> root"
proof -
  from assms(1) obtain kids where "e = Dir kids" by (auto dest: iterdir_Dir)
  with assms(1,3) obtain n where x: "fst x = path @ [n]" by auto
  from assms(2) have "length root \<le> length path" by (rule prefix_length_le)
  with x assms(2) show ?thesis by auto
qed

lemma keys_of_total:
  "\<forall>x \<in> set xs. key x = Inr (k x) \<Longrightarrow> keys_of key xs = Inr (map (\<lambda>x. (k x, x)) xs)"
  by (induction xs) auto

lemma insort_key_map:
  "\<forall>y. k (f y) = k' y \<Longrightarrow> insort_key k (f x) (map f xs) = map f (insort_key k' x xs)"
  by (induction xs) auto

lemma sort_key_map:
  "\<forall>y. k (f y) = k' y \<Longrightarrow> sort_key k (map f xs) = map f (sort_key k' xs)"
  by (induction xs) (auto simp: insort_key_map)

lemma py_sorted_total:
  assumes "\<forall>x \<in> set xs. key x = Inr (k x)"
  shows "py_sorted key xs = Inr (sort_key k xs)"
proof -
  have "sort_key fst (map (\<lambda>x. (k x, x)) xs) = map (\<lambda>x. (k x, x)) (sort_key k xs)"
    by (rule sort_key_map) simp
  then show ?thesis
    by (simp add: py_sorted_def keys_of_total [OF assms] comp_def)
qed

lemma tree_key_stat: "snd x \<noteq> Denied \<Longrightarrow> tree_key low x = Inr (kind_key low x)"
  by (cases "snd x") (auto simp: tree_key_def kind_key_def)

lemma tree_key_denied: "snd x = Denied \<Longrightarrow> tree_key low x = Inl PermissionError"
  by (simp add: tree_key_def)

lemma keys_of_tree_key_denied:
  "list_ex denied listing \<Longrightarrow> keys_of (tree_key low) listing = Inl PermissionError"
proof (induction listing)
  case Nil
  then show ?case by simp
next
  case (Cons x xs)
  show ?case
  proof (cases "snd x = Denied")
    case True
    then show ?thesis by (simp add: tree_key_denied)
  next
    case False
    with Cons.prems have "list_ex denied xs" by (auto simp: list_ex_iff denied_def)
    from Cons.IH [OF this] False show ?thesis by (simp add: tree_key_stat)
  qed
qed

lemma py_sorted_tree_key:
  "py_sorted (tree_key low) listing =
     (if list_ex denied listing then Inl PermissionError
      else Inr (sort_key (kind_key low) listing))"
proof (cases "list_ex denied listing")
  case True
  from keys_of_tree_key_denied [OF this] True show ?thesis
    by (simp add: py_sorted_def)
next
  case False
  then have "\<forall>x \<in> set listing. tree_key low x = Inr (kind_key low x)"
    by (auto simp: list_ex_iff denied_def tree_key_stat)
  from py_sorted_total [OF this] False show ?thesis by simp
qed

lemma filter_entries_under_root:
  "\<forall>x \<in> set xs. prefix (root_dir cfg) (fst x) \<and> snd x \<noteq> Denied \<Longrightarrow>
     filter_entries fnm cfg xs = Inr (filter (is_visible fnm cfg) xs)"
proof (induction xs)
  case Nil
  then show ?case by simp
next
  case (Cons x xs)
  then have p: "prefix (root_dir cfg) (fst x)" and s: "snd x \<noteq> Denied" by simp_all
  obtain b where b: "(if is_dir (snd x) = Inr True then should_exclude_dir fnm cfg (fst x)
            else should_exclude_file fnm cfg (fst x)) = Inr b"
    using exclude_dir_total [OF p, of fnm] exclude_file_total [OF p, of fnm]
    by (cases "is_dir (snd x) = Inr True") auto
  then have v: "is_visible fnm cfg x = (\<not> b)"
    by (auto simp: is_visible_def split: if_splits)
  from is_dir_stat [OF s] obtain d where d: "is_dir (snd x) = Inr d" by blast
  from Cons.prems have "\<forall>x \<in> set xs. prefix (root_dir cfg) (fst x) \<and> snd x \<noteq> Denied"
    by simp
  from Cons.IH [OF this] b v d show ?case by (cases d) auto
qed

lemma snd_in_enumerate: "ix \<in> set (enumerate n xs) \<Longrightarrow> snd ix \<in> set xs"
  by (metis in_set_zipE enumerate_eq_zip prod.collapse)

lemma render_entries_ok:
  "\<forall>ix \<in> set L. \<exists>s. generate_tree_structure fnm low cfg (fst (snd ix)) (snd (snd ix)) np
        (int (fst ix) = int n - 1) = Inr s \<Longrightarrow>
   render_entries fnm low cfg np n ts L =
     (ts @ concat (map (\<lambda>ix. projr (generate_tree_structure fnm low cfg (fst (snd ix))
                        (snd (snd ix)) np (int (fst ix) = int n - 1))) L), None)"
proof (induction L arbitrary: ts)
  case Nil
  then show ?case by simp
next
  case (Cons ix L)
  obtain i entry where ix: "ix = (i, entry)" by (cases ix)
  from Cons.prems ix obtain s where
    s: "generate_tree_structure fnm low cfg (fst entry) (snd entry) np (int i = int n - 1) = Inr s"
    by auto
  from Cons.prems have "\<forall>ix \<in> set L. \<exists>s. generate_tree_structure fnm low cfg (fst (snd ix))
      (snd (snd ix)) np (int (fst ix) = int n - 1) = Inr s"
    by simp
  from Cons.IH [OF this, of "ts @ s"] ix s show ?case by simp
qed

text \<open>The loop of \<open>collect_files\<close> stops at the first child whose collection raises, and
  keeps what it has gathered before.\<close>

lemma collect_entries_eq:
  "collect_entries fnm low cfg acc L =
     (acc @ concat (map (\<lambda>x. projr (collect_files fnm low cfg (fst x) (snd x)))
                 (takeWhile (\<lambda>x. \<not> isl (collect_files fnm low cfg (fst x) (snd x))) L)),
      case dropWhile (\<lambda>x. \<not> isl (collect_files fnm low cfg (fst x) (snd x))) L of
        [] \<Rightarrow> None
      | x # rest \<Rightarrow> Some (projl (collect_files fnm low cfg (fst x) (snd x))))"
proof (induction L arbitrary: acc)
  case Nil
  show ?case by simp
next
  case (Cons x L)
  show ?case
  proof (cases "collect_files fnm low cfg (fst x) (snd x)")
    case (Inl err)
    then show ?thesis by simp
  next
    case (Inr found)
    with Cons [of "acc @ found"] show ?thesis by simp
  qed
qed


lemma is_last_entry_iff: "(int i = int n - 1) \<longleftrightarrow> (Suc i = n)"
  by auto

lemma generate_tree_structure_Denied:
  "generate_tree_structure fnm low cfg path Denied pfx is_last = Inl PermissionError"
  by (simp add: generate_tree_structure.simps)

lemma collect_files_Denied: "collect_files fnm low cfg path Denied = Inl PermissionError"
  by (simp add: collect_files.simps)

text \<open>One step of \<open>generate_tree_structure\<close> below the root, at a node whose kind can be
  determined.\<close>

lemma generate_tree_structure_step:
  assumes pr: "prefix (root_dir cfg) path" and st: "e \<noteq> Denied"
  shows "generate_tree_structure fnm low cfg path e pfx is_last =
     (if is_dir e = Inr True \<and> should_exclude_dir fnm cfg path = Inr False then
        (case iterdir path e of
           Inl err \<Rightarrow> Inr (render_line cfg (pfx, is_last, path, e))
         | Inr listing \<Rightarrow>
             if list_ex denied listing then Inr (render_line cfg (pfx, is_last, path, e))
             else (case render_entries fnm low cfg
                          (if path = root_dir cfg then [] else pfx @ indent is_last)
                          (length (filter (is_visible fnm cfg) (sort_key (kind_key low) listing)))
                          (render_line cfg (pfx, is_last, path, e))
                          (enumerate 0 (filter (is_visible fnm cfg)
                             (sort_key (kind_key low) listing))) of
                     (tree_str', None) \<Rightarrow> Inr tree_str'
                   | (tree_str', Some err) \<Rightarrow> except_PermissionError tree_str' err))
      else Inr (render_line cfg (pfx, is_last, path, e)))"
proof -
  define ts where "ts = render_line cfg (pfx, is_last, path, e)"
  define np where "np = (if path = root_dir cfg then [] else pfx @ indent is_last)"
  obtain b where b: "should_exclude_dir fnm cfg path = Inr b"
    using exclude_dir_total [OF pr] by blast
  obtain d where d: "is_dir e = Inr d"
    using is_dir_stat [OF st] by blast
  have hd: "(if path = root_dir cfg then Inr (name path @ ''/'' @ newline)
            else case is_dir e of
              Inl err \<Rightarrow> Inl err
            | Inr d \<Rightarrow>
                Inr (pfx @ connector is_last @ name path @ (if d then ''/'' else []) @ newline))
          = Inr ts"
    using d by (auto simp: ts_def render_line_def)
  have g: "generate_tree_structure fnm low cfg path e pfx is_last =
      (if \<not> d then Inr ts
       else if b then Inr ts
       else (case iterdir path e of
          Inl err \<Rightarrow> except_PermissionError ts err
        | Inr listing \<Rightarrow>
            (case py_sorted (tree_key low) listing of
               Inl err \<Rightarrow> except_PermissionError ts err
             | Inr all_entries \<Rightarrow>
                 (case filter_entries fnm cfg all_entries of
                    Inl err \<Rightarrow> except_PermissionError ts err
                  | Inr entries \<Rightarrow>
                      (case render_entries fnm low cfg np (length entries) ts
                                (enumerate 0 entries) of
                         (tree_str', None) \<Rightarrow> Inr tree_str'
                       | (tree_str', Some err) \<Rightarrow> except_PermissionError tree_str' err)))))"
    unfolding generate_tree_structure.simps [of fnm low cfg path e pfx is_last] hd
    by (simp add: d b Let_def np_def split: sum.splits)
  show ?thesis
  proof (cases "d \<and> \<not> b")
    case False
    with b d show ?thesis
      unfolding g ts_def [symmetric] by auto
  next
    case True
    show ?thesis
    proof (cases "iterdir path e")
      case (Inl err)
      with True d have "err = PermissionError" by (cases e) auto
      with b d True Inl show ?thesis
        unfolding g ts_def [symmetric] by (simp add: except_PermissionError_def)
    next
      case (Inr listing)
      show ?thesis
      proof (cases "list_ex denied listing")
        case dn: True
        with b d True Inr show ?thesis
          unfolding g ts_def [symmetric]
          by (simp add: except_PermissionError_def py_sorted_tree_key)
      next
        case dn: False
        have "\<forall>x \<in> set (sort_key (kind_key low) listing).
            prefix (root_dir cfg) (fst x) \<and> snd x \<noteq> Denied"
          using iterdir_under_root [OF Inr pr] dn by (auto simp: list_ex_iff denied_def)
        from filter_entries_under_root [OF this, of fnm] b d True Inr dn show ?thesis
          unfolding g ts_def [symmetric] np_def [symmetric]
          by (simp add: py_sorted_tree_key)
      qed
    qed
  qed
qed

lemma render_total:
  "prefix (root_dir cfg) path \<Longrightarrow> e \<noteq> Denied \<Longrightarrow>
     \<exists>s. generate_tree_structure fnm low cfg path e pfx is_last = Inr s"
proof (induction e arbitrary: path pfx is_last)
  case File
  then show ?case by (simp add: generate_tree_structure_step)
next
  case Other
  then show ?case by (simp add: generate_tree_structure_step)
next
  case Locked
  then show ?case by (simp add: generate_tree_structure_step)
next
  case Denied
  then show ?case by simp
next
  case (Dir kids)
  note pr = Dir.prems(1)
  define listing where "listing = map (\<lambda>(n, c). (path @ [n], c)) kids"
  define entries where "entries = filter (is_visible fnm cfg) (sort_key (kind_key low) listing)"
  define np where "np = (if path = root_dir cfg then [] else pfx @ indent is_last)"
  have it: "iterdir path (Dir kids) = Inr listing"
    by (simp add: listing_def)
  show ?case
  proof (cases "list_ex denied listing")
    case True
    with it show ?thesis
      by (simp add: generate_tree_structure_step [OF pr])
  next
    case False
    have "\<exists>s. generate_tree_structure fnm low cfg (fst (snd ix)) (snd (snd ix)) np
                 (int (fst ix) = int (length entries) - 1) = Inr s"
      if "ix \<in> set (enumerate 0 entries)" for ix
    proof -
      from that have m: "snd ix \<in> set listing"
        by (auto dest!: snd_in_enumerate simp: entries_def)
      then obtain n c where nc: "(n, c) \<in> set kids" "snd ix = (path @ [n], c)"
        by (auto simp: listing_def)
      from m False have "c \<noteq> Denied"
        using nc by (auto simp: list_ex_iff denied_def)
      moreover from pr have "prefix (root_dir cfg) (path @ [n])" by simp
      ultimately show ?thesis
        using Dir.IH [OF nc(1), of c "path @ [n]" np] nc by simp
    qed
    then have "\<forall>ix \<in> set (enumerate 0 entries).
          \<exists>s. generate_tree_structure fnm low cfg (fst (snd ix)) (snd (snd ix)) np
                 (int (fst ix) = int (length entries) - 1) = Inr s"
      by blast
    from render_entries_ok [OF this] it False show ?thesis
      by (simp add: generate_tree_structure_step [OF pr] entries_def np_def)
  qed
qed

lemma generate_tree_structure_unfold:
  assumes pr: "prefix (root_dir cfg) path" and st: "e \<noteq> Denied"
  shows "generate_tree_structure fnm low cfg path e pfx is_last =
     Inr (render_line cfg (pfx, is_last, path, e) @
       (if is_dir e = Inr True \<and> should_exclude_dir fnm cfg path = Inr False then
          (case iterdir path e of
             Inl err \<Rightarrow> []
           | Inr listing \<Rightarrow>
               if list_ex denied listing then []
               else
               (let entries = filter (is_visible fnm cfg) (sort_key (kind_key low) listing);
                    new_prefix = (if path = root_dir cfg then [] else pfx @ indent is_last)
                in concat (map (\<lambda>(i, entry).
                      projr (generate_tree_structure fnm low cfg (fst entry) (snd entry)
                        new_prefix (Suc i = length entries)))
                    (enumerate 0 entries))))
        else []))"
proof (cases "is_dir e = Inr True \<and> should_exclude_dir fnm cfg path = Inr False")
  case False
  then show ?thesis
    by (auto simp: generate_tree_structure_step [OF pr st])
next
  case True
  show ?thesis
  proof (cases "iterdir path e")
    case (Inl err)
    with True show ?thesis
      by (simp add: generate_tree_structure_step [OF pr st])
  next
    case (Inr listing)
    show ?thesis
    proof (cases "list_ex denied listing")
      case dn: True
      with True Inr show ?thesis
        by (simp add: generate_tree_structure_step [OF pr st])
    next
      case dn: False
      define entries where
        "entries = filter (is_visible fnm cfg) (sort_key (kind_key low) listing)"
      define np where "np = (if path = root_dir cfg then [] else pfx @ indent is_last)"
      define ts where "ts = render_line cfg (pfx, is_last, path, e)"
      have "\<forall>ix \<in> set (enumerate 0 entries).
          prefix (root_dir cfg) (fst (snd ix)) \<and> snd (snd ix) \<noteq> Denied"
        using iterdir_under_root [OF Inr pr] dn
        by (auto dest!: snd_in_enumerate simp: entries_def list_ex_iff denied_def)
      then have "\<forall>ix \<in> set (enumerate 0 entries).
          \<exists>s. generate_tree_structure fnm low cfg (fst (snd ix)) (snd (snd ix)) np
                 (int (fst ix) = int (length entries) - 1) = Inr s"
        using render_total by blast
      from render_entries_ok [OF this, of ts]
      have r: "render_entries fnm low cfg np (length entries) ts (enumerate 0 entries) =
          (ts @ concat (map (\<lambda>(i, entry).
                      projr (generate_tree_structure fnm low cfg (fst entry) (snd entry) np
                        (Suc i = length entries)))
                    (enumerate 0 entries)), None)"
        by (simp add: is_last_entry_iff case_prod_unfold)
      from True Inr dn r show ?thesis
        by (simp add: generate_tree_structure_step [OF pr st] Let_def entries_def [symmetric]
            np_def [symmetric] ts_def [symmetric])
    qed
  qed
qed

text \<open>One step of \<open>collect_files\<close> below the root.\<close>

lemma collect_files_step:
  assumes pr: "prefix (root_dir cfg) path" and st: "e \<noteq> Denied"
  shows "collect_files fnm low cfg path e =
     (if is_file e = Inr True then
        Inr (if should_exclude_file fnm cfg path = Inr False then [path] else [])
      else if is_dir e = Inr True \<and> should_exclude_dir fnm cfg path = Inr False then
        (case iterdir path e of
           Inl err \<Rightarrow> Inr []
         | Inr listing \<Rightarrow>
             (case collect_entries fnm low cfg [] (sort_key (name_key low) listing) of
                (files', None) \<Rightarrow> Inr files'
              | (files', Some err) \<Rightarrow> except_PermissionError files' err))
      else Inr [])"
proof -
  obtain b where b: "should_exclude_dir fnm cfg path = Inr b"
    using exclude_dir_total [OF pr] by blast
  obtain c where c: "should_exclude_file fnm cfg path = Inr c"
    using exclude_file_total [OF pr] by blast
  from st b c show ?thesis
    by (cases e)
       (auto simp: collect_files.simps Let_def except_PermissionError_def split: sum.splits)
qed

lemma dropWhile_ConsD: "dropWhile P L = x # rest \<Longrightarrow> x \<in> set L \<and> \<not> P x"
  by (metis dropWhile_eq_Cons_conv in_set_conv_decomp)

lemma collect_total:
  "prefix (root_dir cfg) path \<Longrightarrow> e \<noteq> Denied \<Longrightarrow>
     \<exists>fs. collect_files fnm low cfg path e = Inr fs"
proof (induction e arbitrary: path)
  case File
  then show ?case by (simp add: collect_files_step)
next
  case Other
  then show ?case by (simp add: collect_files_step)
next
  case Locked
  then show ?case by (simp add: collect_files_step)
next
  case Denied
  then show ?case by simp
next
  case (Dir kids)
  note pr = Dir.prems(1)
  define L where "L = sort_key (name_key low) (map (\<lambda>(n, c). (path @ [n], c)) kids)"
  have ok: "collect_files fnm low cfg (fst x) (snd x) = Inl PermissionError
            \<or> (\<exists>fs. collect_files fnm low cfg (fst x) (snd x) = Inr fs)"
    if "x \<in> set L" for x
  proof (cases "snd x = Denied")
    case True
    then show ?thesis by (simp add: collect_files_Denied)
  next
    case False
    from that obtain n c where nc: "(n, c) \<in> set kids" "x = (path @ [n], c)"
      by (auto simp: L_def)
    from pr have "prefix (root_dir cfg) (path @ [n])" by simp
    with Dir.IH [OF nc(1), of c "path @ [n]"] False nc show ?thesis by simp
  qed
  have "snd (collect_entries fnm low cfg [] L) = None
        \<or> snd (collect_entries fnm low cfg [] L) = Some PermissionError"
  proof (cases "dropWhile (\<lambda>x. \<not> isl (collect_files fnm low cfg (fst x) (snd x))) L")
    case Nil
    show ?thesis unfolding collect_entries_eq Nil by simp
  next
    case (Cons x rest)
    from dropWhile_ConsD [OF this]
    have "x \<in> set L" "isl (collect_files fnm low cfg (fst x) (snd x))"
      by simp_all
    with ok [of x] have "collect_files fnm low cfg (fst x) (snd x) = Inl PermissionError"
      by auto
    then show ?thesis unfolding collect_entries_eq Cons by simp
  qed
  then show ?case
    by (cases "collect_entries fnm low cfg [] L")
       (auto simp: collect_files_step [OF pr] L_def [symmetric] except_PermissionError_def
          split: option.splits)
qed

lemma collect_isl:
  "prefix (root_dir cfg) path \<Longrightarrow>
     isl (collect_files fnm low cfg path e) \<longleftrightarrow> e = Denied"
  using collect_total [of cfg path e fnm low]
  by (cases "e = Denied") (auto simp: collect_files_Denied)

lemma collect_entries_under_root:
  assumes "\<forall>x \<in> set L. prefix (root_dir cfg) (fst x)"
  shows "collect_entries fnm low cfg acc L =
     (acc @ concat (map (\<lambda>x. projr (collect_files fnm low cfg (fst x) (snd x)))
                 (takeWhile (\<lambda>x. \<not> denied x) L)),
      if list_ex denied L then Some PermissionError else None)"
proof -
  have eq: "(\<lambda>x. \<not> isl (collect_files fnm low cfg (fst x) (snd x))) x = (\<lambda>x. \<not> denied x) x"
    if "x \<in> set L" for x
    using that assms by (simp add: collect_isl denied_def)
  have t: "takeWhile (\<lambda>x. \<not> isl (collect_files fnm low cfg (fst x) (snd x))) L
           = takeWhile (\<lambda>x. \<not> denied x) L"
    by (rule takeWhile_cong [OF refl]) (simp add: eq)
  have d: "dropWhile (\<lambda>x. \<not> isl (collect_files fnm low cfg (fst x) (snd x))) L
           = dropWhile (\<lambda>x. \<not> denied x) L"
    by (rule dropWhile_cong [OF refl]) (simp add: eq)
  have "(case dropWhile (\<lambda>x. \<not> denied x) L of
        [] \<Rightarrow> None
      | x # rest \<Rightarrow> Some (projl (collect_files fnm low cfg (fst x) (snd x))))
      = (if list_ex denied L then Some PermissionError else None)"
  proof (cases "dropWhile (\<lambda>x. \<not> denied x) L")
    case Nil
    then have "\<forall>x \<in> set L. \<not> denied x"
      by simp
    then have "\<not> list_ex denied L" by (simp add: list_ex_iff)
    then show ?thesis unfolding Nil by simp
  next
    case (Cons x rest)
    from dropWhile_ConsD [OF this] have "x \<in> set L" "denied x"
      by simp_all
    then have "list_ex denied L" "snd x = Denied"
      by (auto simp: list_ex_iff denied_def)
    then show ?thesis unfolding Cons by (simp add: collect_files_Denied)
  qed
  then show ?thesis
    by (simp add: collect_entries_eq t d)
qed

lemma collect_files_unfold:
  assumes pr: "prefix (root_dir cfg) path" and st: "e \<noteq> Denied"
  shows "collect_files fnm low cfg path e =
     Inr (if is_file e = Inr True then
            (if should_exclude_file fnm cfg path = Inr False then [path] else [])
          else if is_dir e = Inr True \<and> should_exclude_dir fnm cfg path = Inr False then
            (case iterdir path e of
               Inl err \<Rightarrow> []
             | Inr listing \<Rightarrow>
                 concat (map (\<lambda>x. projr (collect_files fnm low cfg (fst x) (snd x)))
                   (takeWhile (\<lambda>x. \<not> denied x) (sort_key (name_key low) listing))))
          else [])"
proof (cases "iterdir path e")
  case (Inl err)
  then show ?thesis by (simp add: collect_files_step [OF pr st])
next
  case (Inr listing)
  have "\<forall>x \<in> set (sort_key (name_key low) listing). prefix (root_dir cfg) (fst x)"
    using iterdir_under_root [OF Inr pr] by simp
  from collect_entries_under_root [OF this, of fnm low "[]"] Inr show ?thesis
    by (simp add: collect_files_step [OF pr st] except_PermissionError_def)
qed

lemma no_denied_Dir: "no_denied (Dir kids) \<longleftrightarrow> (\<forall>x \<in> set kids. no_denied (snd x))"
  by (auto simp: list_all_iff)

lemma no_denied_stat: "no_denied e \<Longrightarrow> e \<noteq> Denied"
  by auto

lemma no_denied_listing:
  assumes "iterdir path e = Inr listing" "no_denied e"
  shows "(\<forall>x \<in> set listing. no_denied (snd x)) \<and> \<not> list_ex denied listing"
proof -
  from assms(1) obtain kids where e: "e = Dir kids" by (auto dest: iterdir_Dir)
  with assms have "\<forall>x \<in> set listing. no_denied (snd x)"
    by (fastforce simp: list_all_iff)
  then show ?thesis
    by (auto simp: list_ex_iff denied_def)
qed

lemma concat_map_concat:
  "concat (map f (concat xss)) = concat (map (\<lambda>xs. concat (map f xs)) xss)"
  by (induction xss) auto

text \<open>Where the kind of every entry can be determined, \<open>generate_tree_structure\<close> returns
  the text of \<open>rendered_lines\<close>.\<close>

lemma generate_tree_structure_lines:
  "prefix (root_dir cfg) path \<Longrightarrow> no_denied e \<Longrightarrow>
     generate_tree_structure fnm low cfg path e pfx is_last =
       Inr (concat (map (render_line cfg) (rendered_lines fnm low cfg path e pfx is_last)))"
proof (induction fnm low cfg path e pfx is_last rule: rendered_lines.induct)
  case (1 fnm low cfg path e pfx is_last)
  note pr = "1.prems"(1)
  note nd = "1.prems"(2)
  note g = generate_tree_structure_unfold [OF pr no_denied_stat [OF nd], of fnm low pfx is_last]
  note r = rendered_lines.simps [of fnm low cfg path e pfx is_last]
  show ?case
  proof (cases "is_dir e = Inr True \<and> should_exclude_dir fnm cfg path = Inr False")
    case False
    have a: "generate_tree_structure fnm low cfg path e pfx is_last
               = Inr (render_line cfg (pfx, is_last, path, e))"
      using False by (auto simp: g)
    have b: "rendered_lines fnm low cfg path e pfx is_last = [(pfx, is_last, path, e)]"
      using False by (auto simp: r)
    show ?thesis
      by (simp add: a b)
  next
    case True
    show ?thesis
    proof (cases "iterdir path e")
      case (Inl err)
      have a: "generate_tree_structure fnm low cfg path e pfx is_last
                 = Inr (render_line cfg (pfx, is_last, path, e))"
        using True Inl by (simp add: g)
      have b: "rendered_lines fnm low cfg path e pfx is_last = [(pfx, is_last, path, e)]"
        using True Inl by (simp add: r)
      show ?thesis
        by (simp add: a b)
    next
      case (Inr listing)
      define entries where
        "entries = filter (is_visible fnm cfg) (sort_key (kind_key low) listing)"
      define np where "np = (if path = root_dir cfg then [] else pfx @ indent is_last)"
      note nl = no_denied_listing [OF Inr nd]
      have u: "\<forall>x \<in> set entries. prefix (root_dir cfg) (fst x) \<and> no_denied (snd x)"
        using iterdir_under_root [OF Inr pr] nl by (simp add: entries_def)
      have ih: "generate_tree_structure fnm low cfg (fst (snd ix)) (snd (snd ix)) np
                  (Suc (fst ix) = length entries)
                = Inr (concat (map (render_line cfg)
                    (rendered_lines fnm low cfg (fst (snd ix)) (snd (snd ix)) np
                       (Suc (fst ix) = length entries))))"
        if "ix \<in> set (enumerate 0 entries)" for ix
      proof -
        from that u have "prefix (root_dir cfg) (fst (snd ix))" "no_denied (snd (snd ix))"
          by (auto dest!: snd_in_enumerate)
        from "1.IH" [OF True Inr entries_def np_def that prod.collapse this]
        show ?thesis .
      qed
      have c: "concat (map (\<lambda>(i, entry).
                      projr (generate_tree_structure fnm low cfg (fst entry) (snd entry) np
                        (Suc i = length entries)))
                    (enumerate 0 entries))
            = concat (map (render_line cfg) (concat (map (\<lambda>(i, entry).
                    rendered_lines fnm low cfg (fst entry) (snd entry) np
                      (Suc i = length entries))
                  (enumerate 0 entries))))"
        unfolding concat_map_concat map_map
        by (intro arg_cong [where f = concat] map_cong refl)
           (simp add: ih case_prod_unfold)
      have a: "generate_tree_structure fnm low cfg path e pfx is_last
                 = Inr (render_line cfg (pfx, is_last, path, e) @
                     concat (map (\<lambda>(i, entry).
                      projr (generate_tree_structure fnm low cfg (fst entry) (snd entry) np
                        (Suc i = length entries)))
                    (enumerate 0 entries)))"
        using True Inr nl by (simp add: g Let_def entries_def np_def)
      have b: "rendered_lines fnm low cfg path e pfx is_last = (pfx, is_last, path, e) #
                 concat (map (\<lambda>(i, entry).
                    rendered_lines fnm low cfg (fst entry) (snd entry) np
                      (Suc i = length entries))
                  (enumerate 0 entries))"
        using True Inr by (simp add: r Let_def entries_def np_def)
      show ?thesis
        by (simp add: a b c)
    qed
  qed
qed

lemma file_lines_simps:
  "regular_file_lines [] = []"
  "regular_file_lines (l # ls) =
     (if is_file (line_node l) = Inr True then [line_path l] else []) @ regular_file_lines ls"
  "regular_file_lines (ls @ ms) = regular_file_lines ls @ regular_file_lines ms"
  by (auto simp: regular_file_lines_def)

lemma regular_file_lines_concat:
  "regular_file_lines (concat lss) = concat (map regular_file_lines lss)"
  by (induction lss) (auto simp: file_lines_simps)

lemma collect_files_lines:
  "prefix (root_dir cfg) path \<Longrightarrow> no_denied e \<Longrightarrow>
   (is_file e = Inr True \<longrightarrow> is_visible fnm cfg (path, e)) \<Longrightarrow>
     set (projr (collect_files fnm low cfg path e))
       = set (regular_file_lines (rendered_lines fnm low cfg path e pfx is_last))"
proof (induction fnm low cfg path e pfx is_last rule: rendered_lines.induct)
  case (1 fnm low cfg path e pfx is_last)
  note pr = "1.prems"(1)
  note nd = "1.prems"(2)
  note st = no_denied_stat [OF nd]
  note g = collect_files_unfold [OF pr st, of fnm low]
  note r = rendered_lines.simps [of fnm low cfg path e pfx is_last]
  show ?case
  proof (cases "is_dir e = Inr True \<and> should_exclude_dir fnm cfg path = Inr False")
    case False
    have a: "projr (collect_files fnm low cfg path e)
               = (if is_file e = Inr True then [path] else [])"
      using False "1.prems"(3) st
      by (cases e) (auto simp: collect_files_unfold [OF pr] is_visible_def)
    have b: "rendered_lines fnm low cfg path e pfx is_last = [(pfx, is_last, path, e)]"
      using False by (auto simp: r)
    show ?thesis
      by (simp add: a b file_lines_simps line_node_def line_path_def)
  next
    case True
    then have nf: "is_file e \<noteq> Inr True" by (cases e) auto
    show ?thesis
    proof (cases "iterdir path e")
      case (Inl err)
      have a: "projr (collect_files fnm low cfg path e) = []"
        using True Inl nf by (simp add: g)
      have b: "rendered_lines fnm low cfg path e pfx is_last = [(pfx, is_last, path, e)]"
        using True Inl by (simp add: r)
      show ?thesis
        using nf by (simp add: a b file_lines_simps line_node_def)
    next
      case (Inr listing)
      define entries where
        "entries = filter (is_visible fnm cfg) (sort_key (kind_key low) listing)"
      define np where "np = (if path = root_dir cfg then [] else pfx @ indent is_last)"
      note nl = no_denied_listing [OF Inr nd]
      have ul: "\<forall>x \<in> set listing. prefix (root_dir cfg) (fst x)"
        using iterdir_under_root [OF Inr pr] by simp
      have se: "set entries = {x \<in> set listing. is_visible fnm cfg x}"
        by (auto simp: entries_def)
      have vis: "set (projr (collect_files fnm low cfg (fst (snd ix)) (snd (snd ix))))
                = set (regular_file_lines
                    (rendered_lines fnm low cfg (fst (snd ix)) (snd (snd ix)) np
                       (Suc (fst ix) = length entries)))"
        if "ix \<in> set (enumerate 0 entries)" for ix
      proof -
        from that have m: "snd ix \<in> set entries"
          by (rule snd_in_enumerate)
        with ul se have p: "prefix (root_dir cfg) (fst (snd ix))"
          by auto
        from m se nl have n: "no_denied (snd (snd ix))"
          by auto
        from m se have "is_visible fnm cfg (fst (snd ix), snd (snd ix))"
          by auto
        then have v: "is_file (snd (snd ix)) = Inr True \<longrightarrow>
            is_visible fnm cfg (fst (snd ix), snd (snd ix))"
          by simp
        from "1.IH" [OF True Inr entries_def np_def that prod.collapse p n v]
        show ?thesis .
      qed
      have invis: "projr (collect_files fnm low cfg (fst x) (snd x)) = []"
        if "x \<in> set listing" "\<not> is_visible fnm cfg x" for x
      proof -
        from that ul have p: "prefix (root_dir cfg) (fst x)" by auto
        from that nl have s: "snd x \<noteq> Denied" by (auto dest: no_denied_stat)
        from that(2) s show ?thesis
          by (cases "snd x") (auto simp: collect_files_unfold [OF p] is_visible_def)
      qed
      have tw: "takeWhile (\<lambda>x. \<not> denied x) (sort_key (name_key low) listing)
                  = sort_key (name_key low) listing"
        using nl by (auto simp: list_ex_iff)
      have a: "projr (collect_files fnm low cfg path e)
                 = concat (map (\<lambda>x. projr (collect_files fnm low cfg (fst x) (snd x)))
                     (sort_key (name_key low) listing))"
        using True Inr nf by (simp add: g tw)
      have b: "rendered_lines fnm low cfg path e pfx is_last = (pfx, is_last, path, e) #
                 concat (map (\<lambda>(i, entry).
                    rendered_lines fnm low cfg (fst entry) (snd entry) np
                      (Suc i = length entries))
                  (enumerate 0 entries))"
        using True Inr by (simp add: r Let_def entries_def np_def)
      have "set (projr (collect_files fnm low cfg path e))
              = (\<Union>x \<in> set listing. set (projr (collect_files fnm low cfg (fst x) (snd x))))"
        by (simp add: a)
      also have "\<dots> = (\<Union>x \<in> set entries.
            set (projr (collect_files fnm low cfg (fst x) (snd x))))"
        using invis se by fastforce
      also have "\<dots> = (\<Union>ix \<in> set (enumerate 0 entries).
            set (projr (collect_files fnm low cfg (fst (snd ix)) (snd (snd ix)))))"
      proof -
        have "set entries = set (map snd (enumerate 0 entries))"
          by simp
        then have "set entries = snd ` set (enumerate 0 entries)"
          by (simp only: set_map)
        then show ?thesis by simp
      qed
      also have "\<dots> = (\<Union>ix \<in> set (enumerate 0 entries).
            set (regular_file_lines
                    (rendered_lines fnm low cfg (fst (snd ix)) (snd (snd ix)) np
                       (Suc (fst ix) = length entries))))"
        using vis by simp
      also have "\<dots> = set (regular_file_lines (rendered_lines fnm low cfg path e pfx is_last))"
        using nf
        by (simp add: b file_lines_simps regular_file_lines_concat line_node_def
            case_prod_unfold)
      finally show ?thesis .
    qed
  qed
qed

lemma rendered_lines_paths:
  "l \<in> set (rendered_lines fnm low cfg path e pfx is_last) \<Longrightarrow>
     prefix path (line_path l) \<and> (line_path l = path \<longrightarrow> line_node l = e)"
proof (induction fnm low cfg path e pfx is_last arbitrary: l rule: rendered_lines.induct)
  case (1 fnm low cfg path e pfx is_last)
  note r = rendered_lines.simps [of fnm low cfg path e pfx is_last]
  show ?case
  proof (cases "l = (pfx, is_last, path, e)")
    case True
    then show ?thesis by (simp add: line_path_def line_node_def)
  next
    case False
    have c: "is_dir e = Inr True \<and> should_exclude_dir fnm cfg path = Inr False"
    proof (rule ccontr)
      assume "\<not> ?thesis"
      then have "rendered_lines fnm low cfg path e pfx is_last = [(pfx, is_last, path, e)]"
        by (subst r) auto
      with False "1.prems" show False by simp
    qed
    from False "1.prems" c obtain listing where Inr: "iterdir path e = Inr listing"
      by (cases "iterdir path e") (auto simp: r Let_def)
    define entries where
      "entries = filter (is_visible fnm cfg) (sort_key (kind_key low) listing)"
    define np where "np = (if path = root_dir cfg then [] else pfx @ indent is_last)"
    from False "1.prems" c Inr obtain ix where
      ix: "ix \<in> set (enumerate 0 entries)"
        "l \<in> set (rendered_lines fnm low cfg (fst (snd ix)) (snd (snd ix)) np
                  (Suc (fst ix) = length entries))"
      by (auto simp: r Let_def entries_def np_def)
    from "1.IH" [OF c Inr entries_def np_def ix(1) prod.collapse ix(2)]
    have p: "prefix (fst (snd ix)) (line_path l)" by simp
    from ix(1) have "snd ix \<in> set listing"
      by (auto dest!: snd_in_enumerate simp: entries_def)
    with Inr obtain n where "fst (snd ix) = path @ [n]"
      by (cases e) auto
    with p have "prefix (path @ [n]) (line_path l)" by simp
    then have "prefix path (line_path l) \<and> line_path l \<noteq> path"
      by (auto simp: prefix_def)
    then show ?thesis by simp
  qed
qed

lemma rendered_lines_no_denied:
  "l \<in> set (rendered_lines fnm low cfg path e pfx is_last) \<Longrightarrow> no_denied e \<Longrightarrow>
     no_denied (line_node l)"
proof (induction fnm low cfg path e pfx is_last arbitrary: l rule: rendered_lines.induct)
  case (1 fnm low cfg path e pfx is_last)
  note r = rendered_lines.simps [of fnm low cfg path e pfx is_last]
  show ?case
  proof (cases "l = (pfx, is_last, path, e)")
    case True
    with "1.prems"(2) show ?thesis by (simp add: line_node_def)
  next
    case False
    have c: "is_dir e = Inr True \<and> should_exclude_dir fnm cfg path = Inr False"
    proof (rule ccontr)
      assume "\<not> ?thesis"
      then have "rendered_lines fnm low cfg path e pfx is_last = [(pfx, is_last, path, e)]"
        by (subst r) auto
      with False "1.prems" show False by simp
    qed
    from False "1.prems" c obtain listing where Inr: "iterdir path e = Inr listing"
      by (cases "iterdir path e") (auto simp: r Let_def)
    define entries where
      "entries = filter (is_visible fnm cfg) (sort_key (kind_key low) listing)"
    define np where "np = (if path = root_dir cfg then [] else pfx @ indent is_last)"
    from False "1.prems" c Inr obtain ix where
      ix: "ix \<in> set (enumerate 0 entries)"
        "l \<in> set (rendered_lines fnm low cfg (fst (snd ix)) (snd (snd ix)) np
                  (Suc (fst ix) = length entries))"
      by (auto simp: r Let_def entries_def np_def)
    from ix(1) have "snd ix \<in> set listing"
      by (auto dest!: snd_in_enumerate simp: entries_def)
    with no_denied_listing [OF Inr "1.prems"(2)] have "no_denied (snd (snd ix))"
      by simp
    from "1.IH" [OF c Inr entries_def np_def ix(1) prod.collapse ix(2) this]
    show ?thesis .
  qed
qed

section \<open>The two traversals compared\<close>

text \<open>
  Claim C6, as amended.  With the root a directory (\<^verbatim>\<open>main\<close> refuses anything else,
  lines 291-293) and a filesystem in which the kind of every entry below the root can
  be determined (\<^verbatim>\<open>is_file()\<close> and \<^verbatim>\<open>is_dir()\<close> raise nothing),
  \<^verbatim>\<open>generate_tree_structure\<close> returns the text of \<open>rendered_lines\<close>, and the set of
  paths that \<^verbatim>\<open>collect_files\<close> returns is the set of paths of the regular files
  among those lines.  The file lines of the tree are these paths and, in addition, the
  paths of the entries that are neither a regular file nor a directory: such an entry
  is rendered by the tree and never collected.
\<close>

theorem collected_files_are_regular_file_lines:
  assumes "is_dir e = Inr True" and "no_denied e"
  shows "generate_tree_structure fnm low cfg (root_dir cfg) e pfx is_last
           = Inr (concat (map (render_line cfg)
               (rendered_lines fnm low cfg (root_dir cfg) e pfx is_last)))
       \<and> (\<exists>files. collect_files fnm low cfg (root_dir cfg) e = Inr files
             \<and> set files = set (regular_file_lines
                   (rendered_lines fnm low cfg (root_dir cfg) e pfx is_last))
             \<and> set (file_lines cfg (rendered_lines fnm low cfg (root_dir cfg) e pfx is_last))
                 = set files \<union> line_path ` {l \<in> set (rendered_lines fnm low cfg (root_dir cfg) e
                                                   pfx is_last). line_node l = Other})"
proof -
  define ls where "ls = rendered_lines fnm low cfg (root_dir cfg) e pfx is_last"
  have pr: "prefix (root_dir cfg) (root_dir cfg)" by simp
  note st = no_denied_stat [OF assms(2)]
  obtain files where files: "collect_files fnm low cfg (root_dir cfg) e = Inr files"
    using collect_total [OF pr st] by blast
  from assms(1) have "is_file e = Inr True \<longrightarrow> is_visible fnm cfg (root_dir cfg, e)"
    by (cases e) auto
  from collect_files_lines [OF pr assms(2) this, of low pfx is_last] files
  have s: "set files = set (regular_file_lines ls)"
    by (simp add: ls_def)
  have nd: "line_node l \<noteq> Denied" if "l \<in> set ls" for l
    using rendered_lines_no_denied [of l fnm low cfg "root_dir cfg" e pfx is_last] that assms(2)
    by (auto simp: ls_def dest: no_denied_stat)
  have n: "line_path l \<noteq> root_dir cfg" if "l \<in> set ls" "is_dir (line_node l) \<noteq> Inr True" for l
    using rendered_lines_paths [of l fnm low cfg "root_dir cfg" e pfx is_last] that assms
    by (auto simp: ls_def)
  have k: "is_dir x \<noteq> Inr True \<longleftrightarrow> is_file x = Inr True \<or> x = Other \<or> x = Denied" for x
    by (cases x) auto
  have "set (file_lines cfg ls)
          = set (regular_file_lines ls) \<union> line_path ` {l \<in> set ls. line_node l = Other}"
    using n nd by (auto simp: file_lines_def regular_file_lines_def k)
  with s files generate_tree_structure_lines [OF pr assms(2), of fnm low pfx is_last]
  show ?thesis
    by (simp add: ls_def)
qed

text \<open>
  Claim C6, as stated, fails: below a root that holds one entry that is neither a
  regular file nor a directory (a dangling symlink, say), the tree has a file line for
  it and the collection is empty.
\<close>

theorem tree_and_collection_differ:
  "generate_tree_structure fnmatch ascii_lower example_cfg [''home'', ''proj'']
       (Dir [(''link'', Other)]) [] True
     = Inr (''proj/'' @ newline @ connector True @ ''link'' @ newline)
   \<and> file_lines example_cfg
        (rendered_lines fnmatch ascii_lower example_cfg [''home'', ''proj'']
           (Dir [(''link'', Other)]) [] True)
     = [[''home'', ''proj'', ''link'']]
   \<and> collect_files fnmatch ascii_lower example_cfg [''home'', ''proj''] (Dir [(''link'', Other)])
     = Inr []"
  by code_simp

theorem collected_files_are_regular_file_lines_witness:
  "is_dir example_tree = Inr True \<and> no_denied example_tree
   \<and> collect_files fnmatch ascii_lower example_cfg (root_dir example_cfg) example_tree
       = Inr [[''home'', ''proj'', ''a.txt''], [''home'', ''proj'', ''b'', ''x.py''],
              [''home'', ''proj'', ''readme.md'']]
   \<and> set (regular_file_lines (rendered_lines fnmatch ascii_lower example_cfg (root_dir example_cfg)
             example_tree [] True))
       = {[''home'', ''proj'', ''a.txt''], [''home'', ''proj'', ''b'', ''x.py''],
          [''home'', ''proj'', ''readme.md'']}"
proof -
  have d: "is_dir example_tree = Inr True"
    by (simp add: example_tree_def)
  have n: "no_denied example_tree"
    by (simp add: example_tree_def)
  have c: "collect_files fnmatch ascii_lower example_cfg (root_dir example_cfg) example_tree
       = Inr [[''home'', ''proj'', ''a.txt''], [''home'', ''proj'', ''b'', ''x.py''],
              [''home'', ''proj'', ''readme.md'']]"
    by code_simp
  from collected_files_are_regular_file_lines [OF d n, of fnmatch ascii_lower example_cfg "[]" True]
    c d n
  show ?thesis
    by auto
qed

text \<open>
  Where the \<^verbatim>\<open>stat\<close> of an entry is denied the two traversals recover at different
  places: the sort key of the tree raises inside the \<^verbatim>\<open>try\<close> of the directory (line
  106), which then shows no child at all, while \<^verbatim>\<open>collect_files\<close> raises at line 140
  for that entry and the loop of its parent keeps the files gathered before it.
\<close>

lemma denied_entry_traversals_differ:
  "generate_tree_structure fnmatch ascii_lower example_cfg [''home'', ''proj''] denied_dir [] True
     = Inr (''proj/'' @ newline)
   \<and> collect_files fnmatch ascii_lower example_cfg [''home'', ''proj''] denied_dir
     = Inr [[''home'', ''proj'', ''a.txt'']]"
  by code_simp

lemma is_dir_unlock [simp]: "is_dir (unlock c) = is_dir c"
  by (cases c) auto

lemma is_file_unlock [simp]: "is_file (unlock c) = is_file c"
  by (cases c) auto

lemma unlock_Denied_iff [simp]: "unlock c = Denied \<longleftrightarrow> c = Denied"
  by (cases c) auto

lemma enumerate_map: "enumerate n (map f xs) = map (apsnd f) (enumerate n xs)"
  by (induction xs arbitrary: n) auto

lemma filter_map_same:
  "\<forall>y. P (f y) = P y \<Longrightarrow> filter P (map f xs) = map f (filter P xs)"
  by (induction xs) auto

lemma kind_key_unlock: "kind_key low (apsnd unlock x) = kind_key low x"
  by (simp add: kind_key_def)

lemma name_key_unlock: "name_key low (apsnd unlock x) = name_key low x"
  by (simp add: name_key_def)

lemma is_visible_unlock: "is_visible fnm cfg (apsnd unlock x) = is_visible fnm cfg x"
  by (simp add: is_visible_def)

lemma denied_unlock: "denied (apsnd unlock x) = denied x"
  by (simp add: denied_def)

lemma list_ex_denied_unlock: "list_ex denied (map (apsnd unlock) xs) = list_ex denied xs"
  by (simp add: list_ex_iff denied_unlock)

lemma iterdir_unlock_Dir:
  "iterdir path (unlock (Dir kids))
     = Inr (map (apsnd unlock) (map (\<lambda>(n, c). (path @ [n], c)) kids))"
  by (simp add: apsnd_def map_prod_def case_prod_unfold comp_def)

lemma render_line_unlock:
  "render_line cfg (pfx, is_last, path, unlock e) = render_line cfg (pfx, is_last, path, e)"
  by (simp add: render_line_def)

lemma generate_tree_structure_unlock:
  "prefix (root_dir cfg) path \<Longrightarrow>
     generate_tree_structure fnm low cfg path (unlock e) pfx is_last
       = generate_tree_structure fnm low cfg path e pfx is_last"
proof (induction e arbitrary: path pfx is_last)
  case File
  show ?case by simp
next
  case Other
  show ?case by simp
next
  case Denied
  show ?case by simp
next
  case Locked
  show ?case
    by (simp add: generate_tree_structure_unfold [OF Locked] render_line_def Let_def)
next
  case (Dir kids)
  note pr = Dir.prems
  define listing where "listing = map (\<lambda>(n, c). (path @ [n], c)) kids"
  define entries where
    "entries = filter (is_visible fnm cfg) (sort_key (kind_key low) listing)"
  have e': "filter (is_visible fnm cfg) (sort_key (kind_key low) (map (apsnd unlock) listing))
              = map (apsnd unlock) entries"
    by (simp add: entries_def sort_key_map [of "kind_key low" "apsnd unlock" "kind_key low"]
        kind_key_unlock filter_map_same is_visible_unlock)
  have ih: "generate_tree_structure fnm low cfg p (unlock c) np b
              = generate_tree_structure fnm low cfg p c np b"
    if "(p, c) \<in> set entries" for p c np b
  proof -
    from that have m: "(p, c) \<in> set listing" by (simp add: entries_def)
    then obtain n where nc: "(n, c) \<in> set kids" "p = path @ [n]"
      by (auto simp: listing_def)
    from pr have "prefix (root_dir cfg) (path @ [n])" by simp
    from Dir.IH [OF nc(1) _ this, of c np b] nc show ?thesis by simp
  qed
  have "map (\<lambda>(i, entry). projr (generate_tree_structure fnm low cfg (fst entry) (snd entry) np
                (Suc i = length entries))) (enumerate 0 (map (apsnd unlock) entries))
        = map (\<lambda>(i, entry). projr (generate_tree_structure fnm low cfg (fst entry) (snd entry) np
                (Suc i = length entries))) (enumerate 0 entries)" for np
    unfolding enumerate_map map_map
    by (intro map_cong refl) (auto dest!: snd_in_enumerate simp: ih)
  then show ?case
    by (simp add: generate_tree_structure_unfold [OF pr] iterdir_unlock_Dir render_line_def
        Let_def e' list_ex_denied_unlock listing_def [symmetric] entries_def [symmetric]
        del: unlock.simps)
qed

lemma collect_files_unlock:
  "prefix (root_dir cfg) path \<Longrightarrow>
     collect_files fnm low cfg path (unlock e) = collect_files fnm low cfg path e"
proof (induction e arbitrary: path)
  case File
  show ?case by simp
next
  case Other
  show ?case by simp
next
  case Denied
  show ?case by simp
next
  case Locked
  show ?case
    by (simp add: collect_files_unfold [OF Locked])
next
  case (Dir kids)
  note pr = Dir.prems
  define listing where "listing = map (\<lambda>(n, c). (path @ [n], c)) kids"
  have ih: "collect_files fnm low cfg p (unlock c) = collect_files fnm low cfg p c"
    if "(p, c) \<in> set listing" for p c
  proof -
    from that obtain n where nc: "(n, c) \<in> set kids" "p = path @ [n]"
      by (auto simp: listing_def)
    from pr have "prefix (root_dir cfg) (path @ [n])" by simp
    from Dir.IH [OF nc(1) _ this, of c] nc show ?thesis by simp
  qed
  have tw: "takeWhile (\<lambda>x. \<not> denied x) (sort_key (name_key low) (map (apsnd unlock) listing))
        = map (apsnd unlock) (takeWhile (\<lambda>x. \<not> denied x) (sort_key (name_key low) listing))"
    by (simp add: sort_key_map [of "name_key low" "apsnd unlock" "name_key low"] name_key_unlock
        takeWhile_map comp_def denied_unlock)
  have "map (\<lambda>x. projr (collect_files fnm low cfg (fst x) (snd x)))
            (takeWhile (\<lambda>x. \<not> denied x) (sort_key (name_key low) (map (apsnd unlock) listing)))
        = map (\<lambda>x. projr (collect_files fnm low cfg (fst x) (snd x)))
            (takeWhile (\<lambda>x. \<not> denied x) (sort_key (name_key low) listing))"
    unfolding tw map_map
    by (intro map_cong refl) (auto simp: ih dest!: set_takeWhileD)
  then show ?case
    by (simp add: collect_files_unfold [OF pr] iterdir_unlock_Dir
        listing_def [symmetric] del: unlock.simps)
qed

section \<open>Permission errors\<close>

text \<open>
  Claim C8.  Below the root, a directory whose listing raises \<^verbatim>\<open>PermissionError\<close> is
  rendered by \<^verbatim>\<open>generate_tree_structure\<close> as its own line with no children, and
  \<^verbatim>\<open>collect_files\<close> returns no file for it.  Each traversal returns exactly what it
  returns on the tree in which every such directory is replaced by an empty one: the
  failure is treated as an empty listing and the rest of the traversal is unchanged.
  Started at a node whose kind can be determined, neither traversal raises, whatever
  the tree below it holds.
\<close>

theorem permission_errors_recovered:
  assumes "prefix (root_dir cfg) path"
  shows "generate_tree_structure fnm low cfg path Locked pfx is_last
           = Inr (render_line cfg (pfx, is_last, path, Locked))
       \<and> collect_files fnm low cfg path Locked = Inr []
       \<and> generate_tree_structure fnm low cfg path (unlock e) pfx is_last
           = generate_tree_structure fnm low cfg path e pfx is_last
       \<and> collect_files fnm low cfg path (unlock e) = collect_files fnm low cfg path e
       \<and> (e \<noteq> Denied \<longrightarrow>
            (\<exists>s. generate_tree_structure fnm low cfg path e pfx is_last = Inr s
                \<and> generate_tree_structure fnm low cfg path (unlock e) pfx is_last = Inr s)
          \<and> (\<exists>files. collect_files fnm low cfg path e = Inr files
                \<and> collect_files fnm low cfg path (unlock e) = Inr files))"
proof -
  have "generate_tree_structure fnm low cfg path Locked pfx is_last
           = Inr (render_line cfg (pfx, is_last, path, Locked))"
    by (simp add: generate_tree_structure_unfold [OF assms])
  moreover have "collect_files fnm low cfg path Locked = Inr []"
    by (simp add: collect_files_unfold [OF assms])
  moreover have "\<exists>s. generate_tree_structure fnm low cfg path e pfx is_last = Inr s"
    if "e \<noteq> Denied"
    using render_total [OF assms that] by blast
  moreover have "\<exists>files. collect_files fnm low cfg path e = Inr files" if "e \<noteq> Denied"
    using collect_total [OF assms that] by blast
  ultimately show ?thesis
    by (simp add: generate_tree_structure_unlock [OF assms] collect_files_unlock [OF assms])
qed

theorem permission_errors_recovered_witness:
  "prefix (root_dir example_cfg) [''home'', ''proj'']
   \<and> example_tree \<noteq> Denied
   \<and> generate_tree_structure fnmatch ascii_lower example_cfg [''home'', ''proj'', ''priv''] Locked [] False
       = Inr (connector False @ ''priv/'' @ newline)
   \<and> collect_files fnmatch ascii_lower example_cfg [''home'', ''proj''] example_tree
       = Inr [[''home'', ''proj'', ''a.txt''], [''home'', ''proj'', ''b'', ''x.py''],
              [''home'', ''proj'', ''readme.md'']]
   \<and> collect_files fnmatch ascii_lower example_cfg [''home'', ''proj''] (unlock example_tree)
       = Inr [[''home'', ''proj'', ''a.txt''], [''home'', ''proj'', ''b'', ''x.py''],
              [''home'', ''proj'', ''readme.md'']]"
proof -
  have h: "prefix (root_dir example_cfg) [''home'', ''proj'']"
    by (simp add: example_cfg_def)
  have n: "example_tree \<noteq> Denied"
    by (simp add: example_tree_def)
  have g: "generate_tree_structure fnmatch ascii_lower example_cfg [''home'', ''proj'', ''priv''] Locked
         [] False
       = Inr (connector False @ ''priv/'' @ newline)"
    by code_simp
  have c: "collect_files fnmatch ascii_lower example_cfg [''home'', ''proj''] example_tree
       = Inr [[''home'', ''proj'', ''a.txt''], [''home'', ''proj'', ''b'', ''x.py''],
              [''home'', ''proj'', ''readme.md'']]"
    by code_simp
  from permission_errors_recovered [OF h, of fnmatch ascii_lower "[]" True example_tree] h n g c
  show ?thesis
    by auto
qed

lemma child_line:
  assumes "prefix (root_dir cfg) p" "p \<noteq> root_dir cfg" "c \<noteq> Denied"
  shows "\<exists>rest. generate_tree_structure fnm low cfg p c np flag
           = Inr (np @ connector flag @ name p @ rest)"
  using assms(2)
  by (simp add: generate_tree_structure_unfold [OF assms(1,3)] render_line_def)

lemma sorted_wrt_nth:
  "sorted (map k xs) \<Longrightarrow> i < j \<Longrightarrow> j < length xs \<Longrightarrow> k (xs ! i) \<le> k (xs ! j)"
  by (simp add: sorted_iff_nth_mono)


lemma kind_key_le:
  "kind_key low x \<le> kind_key low y \<longleftrightarrow>
     (is_file (snd x) = Inr True \<longrightarrow> is_file (snd y) = Inr True)
     \<and> ((is_file (snd x) = Inr True) = (is_file (snd y) = Inr True)
          \<longrightarrow> low (name (fst x)) \<le> low (name (fst y)))"
  by (auto simp: kind_key_def less_eq_prod_def)

lemma orders_differ_somewhere:
  "\<exists>l. map fst (sort_key (kind_key low) l) \<noteq> map fst (sort_key (name_key low) l)"
proof (cases "low ''a'' \<le> low ''b''")
  case True
  then have "map fst (sort_key (kind_key low) [([''a''], File), ([''b''], Dir [])])
      \<noteq> map fst (sort_key (name_key low) [([''a''], File), ([''b''], Dir [])])"
    by (simp add: kind_key_def name_key_def name_def less_eq_prod_def)
  then show ?thesis by blast
next
  case False
  then have "low ''b'' \<le> low ''a''" by simp
  then have "map fst (sort_key (kind_key low) [([''b''], File), ([''a''], Dir [])])
      \<noteq> map fst (sort_key (name_key low) [([''b''], File), ([''a''], Dir [])])"
    by (simp add: kind_key_def name_key_def name_def less_eq_prod_def)
  then show ?thesis by blast
qed

section \<open>Sibling order\<close>

text \<open>
  Claim C5, as amended.  Take a visible directory below the root that can be listed.
  Unless the \<^verbatim>\<open>stat\<close> of one of its entries is denied (then no child is rendered),
  \<^verbatim>\<open>generate_tree_structure\<close> renders the directory's line followed by the texts of
  its surviving (filtered) children.  Of two surviving children, one that is not a
  regular file never follows a regular file, and two children that are both regular
  files, or both not, stand in the order of their lower-case names: the first key is
  whether the entry is a regular file, so directories come before regular files but
  share their group, in name order, with the entries that are neither.  The text of
  child \<open>i\<close> starts with the new prefix and the connector of the last sibling exactly
  when \<open>i\<close> is the last index of the filtered list.  \<^verbatim>\<open>collect_files\<close> visits the
  children of the listing (up to the first one whose \<^verbatim>\<open>stat\<close> is denied) in the
  order of their lower-case names alone and returns the concatenation of what it
  collects from them.  The two orders are computed independently and differ on some
  listings.
\<close>

theorem sibling_orders:
  assumes "prefix (root_dir cfg) path"
    and "should_exclude_dir fnm cfg path = Inr False"
    and "iterdir path e = Inr listing"
  shows "(let entries = (if list_ex denied listing then []
                         else filter (is_visible fnm cfg) (sort_key (kind_key low) listing));
              new_prefix = (if path = root_dir cfg then [] else pfx @ indent is_last);
              by_name = sort_key (name_key low) listing;
              visited = takeWhile (\<lambda>x. \<not> denied x) by_name
          in set entries = (if list_ex denied listing then {}
                            else {x \<in> set listing. is_visible fnm cfg x})
             \<and> length entries = (if list_ex denied listing then 0
                                  else length (filter (is_visible fnm cfg) listing))
             \<and> (\<forall>i j. i < j \<and> j < length entries \<longrightarrow>
                   (is_file (snd (entries ! i)) = Inr True
                      \<longrightarrow> is_file (snd (entries ! j)) = Inr True)
                   \<and> ((is_file (snd (entries ! i)) = Inr True)
                        = (is_file (snd (entries ! j)) = Inr True)
                      \<longrightarrow> low (name (fst (entries ! i))) \<le> low (name (fst (entries ! j)))))
             \<and> generate_tree_structure fnm low cfg path e pfx is_last
                 = Inr (render_line cfg (pfx, is_last, path, e) @
                     concat (map (\<lambda>(i, entry).
                        projr (generate_tree_structure fnm low cfg (fst entry) (snd entry)
                          new_prefix (Suc i = length entries)))
                      (enumerate 0 entries)))
             \<and> list_all (\<lambda>(i, entry). \<exists>rest.
                    generate_tree_structure fnm low cfg (fst entry) (snd entry) new_prefix
                        (Suc i = length entries)
                      = Inr (new_prefix @ connector (Suc i = length entries)
                               @ name (fst entry) @ rest))
                  (enumerate 0 entries)
             \<and> set by_name = set listing \<and> length by_name = length listing
             \<and> (\<forall>i j. i < j \<and> j < length by_name \<longrightarrow>
                   low (name (fst (by_name ! i))) \<le> low (name (fst (by_name ! j))))
             \<and> collect_files fnm low cfg path e
                 = Inr (concat (map (\<lambda>x. projr (collect_files fnm low cfg (fst x) (snd x)))
                     visited))
             \<and> list_all (\<lambda>x. \<exists>found. collect_files fnm low cfg (fst x) (snd x) = Inr found)
                  visited)
       \<and> (\<exists>l. map fst (sort_key (kind_key low) l) \<noteq> map fst (sort_key (name_key low) l))"
proof -
  define entries where "entries = (if list_ex denied listing then []
      else filter (is_visible fnm cfg) (sort_key (kind_key low) listing))"
  define np where "np = (if path = root_dir cfg then [] else pfx @ indent is_last)"
  define by_name where "by_name = sort_key (name_key low) listing"
  define visited where "visited = takeWhile (\<lambda>x. \<not> denied x) by_name"
  from assms(3) have d: "is_dir e = Inr True" "is_file e \<noteq> Inr True" "e \<noteq> Denied"
    by (cases e; simp)+
  have u: "prefix (root_dir cfg) (fst x) \<and> fst x \<noteq> root_dir cfg" if "x \<in> set listing" for x
    using iterdir_under_root [OF assms(3) assms(1) that] .
  have en: "x \<in> set listing \<and> snd x \<noteq> Denied" if "x \<in> set entries" for x
    using that by (auto simp: entries_def list_ex_iff denied_def split: if_splits)
  have 1: "set entries = (if list_ex denied listing then {}
                            else {x \<in> set listing. is_visible fnm cfg x})"
    by (auto simp: entries_def)
  have 1: "set entries = (if list_ex denied listing then {}
                            else {x \<in> set listing. is_visible fnm cfg x})
      \<and> length entries = (if list_ex denied listing then 0
                           else length (filter (is_visible fnm cfg) listing))"
    using 1 by (simp add: entries_def filter_sort)
  have s: "sorted (map (kind_key low) entries)"
    unfolding entries_def by (auto intro!: sorted_filter sorted_sort_key)
  have 2: "(is_file (snd (entries ! i)) = Inr True \<longrightarrow> is_file (snd (entries ! j)) = Inr True)
         \<and> ((is_file (snd (entries ! i)) = Inr True) = (is_file (snd (entries ! j)) = Inr True)
              \<longrightarrow> low (name (fst (entries ! i))) \<le> low (name (fst (entries ! j))))"
    if "i < j \<and> j < length entries" for i j
    using sorted_wrt_nth [OF s, of i j] that by (simp add: kind_key_le)
  have 3: "generate_tree_structure fnm low cfg path e pfx is_last
                 = Inr (render_line cfg (pfx, is_last, path, e) @
                     concat (map (\<lambda>(i, entry).
                        projr (generate_tree_structure fnm low cfg (fst entry) (snd entry) np
                          (Suc i = length entries)))
                      (enumerate 0 entries)))"
    using assms(2,3) d
    by (simp add: generate_tree_structure_unfold [OF assms(1)] Let_def entries_def np_def)
  have 4: "list_all (\<lambda>(i, entry). \<exists>rest.
                    generate_tree_structure fnm low cfg (fst entry) (snd entry) np
                        (Suc i = length entries)
                      = Inr (np @ connector (Suc i = length entries) @ name (fst entry) @ rest))
                  (enumerate 0 entries)"
    unfolding list_all_iff
  proof (intro ballI, unfold case_prod_unfold)
    fix ix assume "ix \<in> set (enumerate 0 entries)"
    then have "snd ix \<in> set entries"
      by (rule snd_in_enumerate)
    from en [OF this] u [of "snd ix"] show "\<exists>rest.
        generate_tree_structure fnm low cfg (fst (snd ix)) (snd (snd ix)) np
            (Suc (fst ix) = length entries)
          = Inr (np @ connector (Suc (fst ix) = length entries) @ name (fst (snd ix)) @ rest)"
      by (intro child_line) simp_all
  qed
  have 5: "set by_name = set listing \<and> length by_name = length listing"
    by (simp add: by_name_def)
  have sn: "sorted (map (name_key low) by_name)"
    unfolding by_name_def by (rule sorted_sort_key)
  have 6: "low (name (fst (by_name ! i))) \<le> low (name (fst (by_name ! j)))"
    if "i < j \<and> j < length by_name" for i j
    using sorted_wrt_nth [OF sn, of i j] that by (simp add: name_key_def)
  have 7: "collect_files fnm low cfg path e
           = Inr (concat (map (\<lambda>x. projr (collect_files fnm low cfg (fst x) (snd x))) visited))"
    using assms(2,3) d
    by (simp add: collect_files_unfold [OF assms(1)] visited_def by_name_def)
  have 8: "list_all (\<lambda>x. \<exists>found. collect_files fnm low cfg (fst x) (snd x) = Inr found) visited"
    unfolding list_all_iff
  proof
    fix x assume x: "x \<in> set visited"
    then have "x \<in> set listing"
      by (auto simp: visited_def by_name_def dest: set_takeWhileD)
    moreover from x have "snd x \<noteq> Denied"
      by (auto simp: visited_def denied_def dest: set_takeWhileD)
    ultimately show "\<exists>found. collect_files fnm low cfg (fst x) (snd x) = Inr found"
      using u collect_total by blast
  qed
  from 1 2 3 4 5 6 7 8 orders_differ_somewhere [of low] show ?thesis
    unfolding Let_def entries_def [symmetric] np_def [symmetric] by_name_def [symmetric]
      visited_def [symmetric]
    by blast
qed

text \<open>
  Claim C5, as stated, fails in its "directories first": with a directory \<^verbatim>\<open>z\<close>, a
  dangling link \<^verbatim>\<open>m\<close> and a file \<^verbatim>\<open>a\<close>, the link is rendered before the directory.
\<close>

theorem directories_are_not_first:
  "generate_tree_structure fnmatch ascii_lower example_cfg [''home'', ''proj'']
       (Dir [(''z'', Dir []), (''m'', Other), (''a'', File)]) [] True
     = Inr (''proj/'' @ newline
            @ connector False @ ''m'' @ newline
            @ connector False @ ''z/'' @ newline
            @ connector True @ ''a'' @ newline)"
  by code_simp

theorem sibling_orders_witness:
  "prefix (root_dir example_cfg) [''home'', ''proj'']
   \<and> should_exclude_dir fnmatch example_cfg [''home'', ''proj''] = Inr False
   \<and> iterdir [''home'', ''proj''] mixed_case_dir
       = Inr [([''home'', ''proj'', ''b.txt''], File), ([''home'', ''proj'', ''Zed''], Dir []),
              ([''home'', ''proj'', ''a.txt''], File), ([''home'', ''proj'', ''C.txt''], File),
              ([''home'', ''proj'', ''docs''], Dir [(''x.py'', File)])]
   \<and> filter (is_visible fnmatch example_cfg)
         (sort_key (kind_key ascii_lower)
            [([''home'', ''proj'', ''b.txt''], File), ([''home'', ''proj'', ''Zed''], Dir []),
             ([''home'', ''proj'', ''a.txt''], File), ([''home'', ''proj'', ''C.txt''], File),
             ([''home'', ''proj'', ''docs''], Dir [(''x.py'', File)])])
       = [([''home'', ''proj'', ''docs''], Dir [(''x.py'', File)]),
          ([''home'', ''proj'', ''Zed''], Dir []),
          ([''home'', ''proj'', ''a.txt''], File), ([''home'', ''proj'', ''b.txt''], File),
          ([''home'', ''proj'', ''C.txt''], File)]
   \<and> map fst (sort_key (name_key ascii_lower)
            [([''home'', ''proj'', ''b.txt''], File), ([''home'', ''proj'', ''Zed''], Dir []),
             ([''home'', ''proj'', ''a.txt''], File), ([''home'', ''proj'', ''C.txt''], File),
             ([''home'', ''proj'', ''docs''], Dir [(''x.py'', File)])])
       = [[''home'', ''proj'', ''a.txt''], [''home'', ''proj'', ''b.txt''],
          [''home'', ''proj'', ''C.txt''], [''home'', ''proj'', ''docs''],
          [''home'', ''proj'', ''Zed'']]
   \<and> generate_tree_structure fnmatch ascii_lower example_cfg [''home'', ''proj''] mixed_case_dir [] True
       = Inr (''proj/'' @ newline
              @ connector False @ ''docs/'' @ newline
              @ indent False @ connector True @ ''x.py'' @ newline
              @ connector False @ ''Zed/'' @ newline
              @ connector False @ ''a.txt'' @ newline
              @ connector False @ ''b.txt'' @ newline
              @ connector True @ ''C.txt'' @ newline)
   \<and> collect_files fnmatch ascii_lower example_cfg [''home'', ''proj''] mixed_case_dir
       = Inr [[''home'', ''proj'', ''a.txt''], [''home'', ''proj'', ''b.txt''],
              [''home'', ''proj'', ''C.txt''], [''home'', ''proj'', ''docs'', ''x.py'']]
   \<and> length (sort_key (name_key ascii_lower)
            [([''home'', ''proj'', ''b.txt''], File), ([''home'', ''proj'', ''Zed''], Dir []),
             ([''home'', ''proj'', ''a.txt''], File), ([''home'', ''proj'', ''C.txt''], File),
             ([''home'', ''proj'', ''docs''], Dir [(''x.py'', File)])])
        = length [([''home'', ''proj'', ''b.txt''], File), ([''home'', ''proj'', ''Zed''], Dir []),
             ([''home'', ''proj'', ''a.txt''], File), ([''home'', ''proj'', ''C.txt''], File),
             ([''home'', ''proj'', ''docs''], Dir [(''x.py'', File)])]"
proof -
  have h1: "prefix (root_dir example_cfg) [''home'', ''proj'']"
    by (simp add: example_cfg_def)
  have h2: "should_exclude_dir fnmatch example_cfg [''home'', ''proj''] = Inr False"
    by code_simp
  have h3: "iterdir [''home'', ''proj''] mixed_case_dir
       = Inr [([''home'', ''proj'', ''b.txt''], File), ([''home'', ''proj'', ''Zed''], Dir []),
              ([''home'', ''proj'', ''a.txt''], File), ([''home'', ''proj'', ''C.txt''], File),
              ([''home'', ''proj'', ''docs''], Dir [(''x.py'', File)])]"
    by (simp add: mixed_case_dir_def)
  have f: "filter (is_visible fnmatch example_cfg)
         (sort_key (kind_key ascii_lower)
            [([''home'', ''proj'', ''b.txt''], File), ([''home'', ''proj'', ''Zed''], Dir []),
             ([''home'', ''proj'', ''a.txt''], File), ([''home'', ''proj'', ''C.txt''], File),
             ([''home'', ''proj'', ''docs''], Dir [(''x.py'', File)])])
       = [([''home'', ''proj'', ''docs''], Dir [(''x.py'', File)]),
          ([''home'', ''proj'', ''Zed''], Dir []),
          ([''home'', ''proj'', ''a.txt''], File), ([''home'', ''proj'', ''b.txt''], File),
          ([''home'', ''proj'', ''C.txt''], File)]"
    by code_simp
  have n: "map fst (sort_key (name_key ascii_lower)
            [([''home'', ''proj'', ''b.txt''], File), ([''home'', ''proj'', ''Zed''], Dir []),
             ([''home'', ''proj'', ''a.txt''], File), ([''home'', ''proj'', ''C.txt''], File),
             ([''home'', ''proj'', ''docs''], Dir [(''x.py'', File)])])
       = [[''home'', ''proj'', ''a.txt''], [''home'', ''proj'', ''b.txt''],
          [''home'', ''proj'', ''C.txt''], [''home'', ''proj'', ''docs''],
          [''home'', ''proj'', ''Zed'']]"
    by code_simp
  have g: "generate_tree_structure fnmatch ascii_lower example_cfg [''home'', ''proj''] mixed_case_dir
         [] True
       = Inr (''proj/'' @ newline
              @ connector False @ ''docs/'' @ newline
              @ indent False @ connector True @ ''x.py'' @ newline
              @ connector False @ ''Zed/'' @ newline
              @ connector False @ ''a.txt'' @ newline
              @ connector False @ ''b.txt'' @ newline
              @ connector True @ ''C.txt'' @ newline)"
    by code_simp
  have c: "collect_files fnmatch ascii_lower example_cfg [''home'', ''proj''] mixed_case_dir
       = Inr [[''home'', ''proj'', ''a.txt''], [''home'', ''proj'', ''b.txt''],
              [''home'', ''proj'', ''C.txt''], [''home'', ''proj'', ''docs'', ''x.py'']]"
    by code_simp
  note t = sibling_orders [OF h1 h2 h3, of ascii_lower "[]" True, THEN conjunct1, unfolded Let_def]
  from t have l: "length (sort_key (name_key ascii_lower)
            [([''home'', ''proj'', ''b.txt''], File), ([''home'', ''proj'', ''Zed''], Dir []),
             ([''home'', ''proj'', ''a.txt''], File), ([''home'', ''proj'', ''C.txt''], File),
             ([''home'', ''proj'', ''docs''], Dir [(''x.py'', File)])])
        = length [([''home'', ''proj'', ''b.txt''], File), ([''home'', ''proj'', ''Zed''], Dir []),
             ([''home'', ''proj'', ''a.txt''], File), ([''home'', ''proj'', ''C.txt''], File),
             ([''home'', ''proj'', ''docs''], Dir [(''x.py'', File)])]"
    by (elim conjE) assumption
  show ?thesis
    by (intro conjI h1 h2 h3 f n g c l)
qed

section \<open>The root directory\<close>

lemma partial_paths_dot: "partial_paths ''.'' = [''.'']"
  by (simp add: partial_paths_def)

lemma should_exclude_dir_root:
  "should_exclude_dir fnm cfg (root_dir cfg)
     = Inr (startswith (name (root_dir cfg)) ''.''
            \<or> ''.'' \<in> exclude_dirs cfg \<or> name (root_dir cfg) \<in> exclude_dirs cfg
            \<or> (\<exists>pattern \<in> set (exclude_patterns cfg).
                  fnm (name (root_dir cfg)) pattern \<or> fnm ''.'' pattern))"
  by (auto simp: should_exclude_dir_def relative_to_def str_def Let_def dir_pattern_loop_iff
      partial_paths_dot)

text \<open>
  Claim C1, as amended.  Both traversals apply \<^verbatim>\<open>should_exclude_dir\<close> to the root
  itself (lines 103 and 144), with its bare name and the relative path \<^verbatim>\<open>.\<close>: the root
  is excluded when its bare name starts with \<^verbatim>\<open>.\<close>, when its bare name or \<^verbatim>\<open>.\<close> is in
  \<open>exclude_dirs\<close>, or when a pattern of \<open>exclude_patterns\<close> matches its bare name or
  \<^verbatim>\<open>.\<close>.  For a root whose kind can be determined, \<^verbatim>\<open>generate_tree_structure\<close>
  always renders the root as its name followed by \<^verbatim>\<open>/\<close>, with no prefix and no
  connector.  When the root is excluded the tree is that single line and
  \<^verbatim>\<open>collect_files\<close> returns no file; when it is not excluded, its children are
  enumerated, each filtered by the rule of its kind, by both traversals (the tree
  renders none of them when the \<^verbatim>\<open>stat\<close> of one is denied, and the collector stops at
  the first such child).
\<close>

theorem root_is_filtered_as_a_directory:
  "should_exclude_dir fnm cfg (root_dir cfg)
     = Inr (startswith (name (root_dir cfg)) ''.''
            \<or> ''.'' \<in> exclude_dirs cfg \<or> name (root_dir cfg) \<in> exclude_dirs cfg
            \<or> (\<exists>pattern \<in> set (exclude_patterns cfg).
                  fnm (name (root_dir cfg)) pattern \<or> fnm ''.'' pattern))
   \<and> (e \<noteq> Denied \<longrightarrow>
        (\<exists>rest. generate_tree_structure fnm low cfg (root_dir cfg) e pfx is_last
                = Inr (name (root_dir cfg) @ ''/'' @ newline @ rest)))
   \<and> (should_exclude_dir fnm cfg (root_dir cfg) = Inr True \<longrightarrow> e \<noteq> Denied \<longrightarrow>
         generate_tree_structure fnm low cfg (root_dir cfg) e pfx is_last
           = Inr (name (root_dir cfg) @ ''/'' @ newline)
         \<and> (is_dir e = Inr True \<longrightarrow> collect_files fnm low cfg (root_dir cfg) e = Inr []))
   \<and> (should_exclude_dir fnm cfg (root_dir cfg) = Inr False \<longrightarrow>
       iterdir (root_dir cfg) e = Inr listing \<longrightarrow>
         generate_tree_structure fnm low cfg (root_dir cfg) e pfx is_last
           = Inr (name (root_dir cfg) @ ''/'' @ newline @
               (if list_ex denied listing then []
                else concat (map (\<lambda>(i, entry).
                  projr (generate_tree_structure fnm low cfg (fst entry) (snd entry) []
                    (Suc i = length (filter (is_visible fnm cfg)
                       (sort_key (kind_key low) listing)))))
                (enumerate 0 (filter (is_visible fnm cfg) (sort_key (kind_key low) listing))))))
         \<and> collect_files fnm low cfg (root_dir cfg) e
           = Inr (concat (map (\<lambda>x. projr (collect_files fnm low cfg (fst x) (snd x)))
               (takeWhile (\<lambda>x. \<not> denied x) (sort_key (name_key low) listing)))))"
proof -
  have pr: "prefix (root_dir cfg) (root_dir cfg)" by simp
  have 2: "\<exists>rest. generate_tree_structure fnm low cfg (root_dir cfg) e pfx is_last
                = Inr (name (root_dir cfg) @ ''/'' @ newline @ rest)"
    if "e \<noteq> Denied"
    by (simp add: generate_tree_structure_unfold [OF pr that] render_line_def)
  have 3: "generate_tree_structure fnm low cfg (root_dir cfg) e pfx is_last
           = Inr (name (root_dir cfg) @ ''/'' @ newline)
         \<and> (is_dir e = Inr True \<longrightarrow> collect_files fnm low cfg (root_dir cfg) e = Inr [])"
    if "should_exclude_dir fnm cfg (root_dir cfg) = Inr True" "e \<noteq> Denied"
    using that
    by (cases e)
       (simp_all add: generate_tree_structure_unfold [OF pr] collect_files_unfold [OF pr]
          render_line_def)
  have 4: "generate_tree_structure fnm low cfg (root_dir cfg) e pfx is_last
           = Inr (name (root_dir cfg) @ ''/'' @ newline @
               (if list_ex denied listing then []
                else concat (map (\<lambda>(i, entry).
                  projr (generate_tree_structure fnm low cfg (fst entry) (snd entry) []
                    (Suc i = length (filter (is_visible fnm cfg)
                       (sort_key (kind_key low) listing)))))
                (enumerate 0 (filter (is_visible fnm cfg) (sort_key (kind_key low) listing))))))
         \<and> collect_files fnm low cfg (root_dir cfg) e
           = Inr (concat (map (\<lambda>x. projr (collect_files fnm low cfg (fst x) (snd x)))
               (takeWhile (\<lambda>x. \<not> denied x) (sort_key (name_key low) listing))))"
    if "should_exclude_dir fnm cfg (root_dir cfg) = Inr False"
      "iterdir (root_dir cfg) e = Inr listing"
  proof -
    from that(2) have d: "is_dir e = Inr True" "is_file e \<noteq> Inr True" "e \<noteq> Denied"
      by (cases e; simp)+
    from that d show ?thesis
      by (simp add: generate_tree_structure_unfold [OF pr] collect_files_unfold [OF pr]
          render_line_def Let_def)
  qed
  from should_exclude_dir_root [of fnm cfg] 2 3 4 show ?thesis
    by blast
qed

text \<open>
  Claim C1, as stated, fails: for a root named \<^verbatim>\<open>.proj\<close> that holds a visible file,
  the tree is the root line alone and nothing is collected.
\<close>

theorem hidden_root_is_not_traversed:
  "generate_tree_structure fnmatch ascii_lower (example_cfg\<lparr>root_dir := [''home'', ''.proj'']\<rparr>)
       [''home'', ''.proj''] (Dir [(''a.txt'', File)]) [] True
     = Inr (''.proj/'' @ newline)
   \<and> collect_files fnmatch ascii_lower (example_cfg\<lparr>root_dir := [''home'', ''.proj'']\<rparr>)
       [''home'', ''.proj''] (Dir [(''a.txt'', File)])
     = Inr []
   \<and> should_exclude_file fnmatch (example_cfg\<lparr>root_dir := [''home'', ''.proj'']\<rparr>)
       [''home'', ''.proj'', ''a.txt'']
     = Inr False"
  by code_simp

theorem root_is_filtered_as_a_directory_witness:
  "should_exclude_dir fnmatch (example_cfg\<lparr>exclude_dirs := {''proj''}\<rparr>)
       (root_dir (example_cfg\<lparr>exclude_dirs := {''proj''}\<rparr>)) = Inr True
   \<and> example_dir \<noteq> Denied
   \<and> generate_tree_structure fnmatch ascii_lower (example_cfg\<lparr>exclude_dirs := {''proj''}\<rparr>)
       (root_dir (example_cfg\<lparr>exclude_dirs := {''proj''}\<rparr>)) example_dir [] True
     = Inr (''proj/'' @ newline)
   \<and> collect_files fnmatch ascii_lower (example_cfg\<lparr>exclude_dirs := {''proj''}\<rparr>)
       (root_dir (example_cfg\<lparr>exclude_dirs := {''proj''}\<rparr>)) example_dir = Inr []
   \<and> should_exclude_dir fnmatch example_cfg (root_dir example_cfg) = Inr False
   \<and> iterdir (root_dir example_cfg) example_dir
       = Inr [([''home'', ''proj'', ''a.txt''], File),
              ([''home'', ''proj'', ''b''], Dir [(''x.py'', File)])]
   \<and> collect_files fnmatch ascii_lower example_cfg (root_dir example_cfg) example_dir
       = Inr (concat (map (\<lambda>x. projr (collect_files fnmatch ascii_lower example_cfg (fst x) (snd x)))
               (takeWhile (\<lambda>x. \<not> denied x)
                 (sort_key (name_key ascii_lower) [([''home'', ''proj'', ''a.txt''], File),
                    ([''home'', ''proj'', ''b''], Dir [(''x.py'', File)])]))))
   \<and> collect_files fnmatch ascii_lower example_cfg (root_dir example_cfg) example_dir
       = Inr [[''home'', ''proj'', ''a.txt''], [''home'', ''proj'', ''b'', ''x.py'']]"
proof -
  have x: "should_exclude_dir fnmatch (example_cfg\<lparr>exclude_dirs := {''proj''}\<rparr>)
       (root_dir (example_cfg\<lparr>exclude_dirs := {''proj''}\<rparr>)) = Inr True"
    by (simp add: should_exclude_dir_def example_cfg_def name_def startswith_def
        relative_to_def str_def)
  have d: "is_dir example_dir = Inr True"
    by (simp add: example_dir_def)
  have s: "example_dir \<noteq> Denied"
    by (simp add: example_dir_def)
  have v: "should_exclude_dir fnmatch example_cfg (root_dir example_cfg) = Inr False"
    by (simp add: should_exclude_dir_def example_cfg_def name_def startswith_def
        relative_to_def str_def)
  have l: "iterdir (root_dir example_cfg) example_dir
       = Inr [([''home'', ''proj'', ''a.txt''], File),
              ([''home'', ''proj'', ''b''], Dir [(''x.py'', File)])]"
    by (simp add: example_dir_def example_cfg_def)
  have n: "name (root_dir (example_cfg\<lparr>exclude_dirs := {''proj''}\<rparr>)) = ''proj''"
    by (simp add: example_cfg_def name_def)
  have c: "collect_files fnmatch ascii_lower example_cfg (root_dir example_cfg) example_dir
       = Inr [[''home'', ''proj'', ''a.txt''], [''home'', ''proj'', ''b'', ''x.py'']]"
    by code_simp
  note t1 = root_is_filtered_as_a_directory [of fnmatch
      "example_cfg\<lparr>exclude_dirs := {''proj''}\<rparr>" example_dir ascii_lower "[]" True "[]",
      THEN conjunct2, THEN conjunct2, THEN conjunct1, rule_format, OF x s]
  from t1 d have a: "generate_tree_structure fnmatch ascii_lower (example_cfg\<lparr>exclude_dirs := {''proj''}\<rparr>)
       (root_dir (example_cfg\<lparr>exclude_dirs := {''proj''}\<rparr>)) example_dir [] True
     = Inr (''proj/'' @ newline)"
    by (simp only: n append_assoc) simp
  from t1 d have a': "collect_files fnmatch ascii_lower (example_cfg\<lparr>exclude_dirs := {''proj''}\<rparr>)
       (root_dir (example_cfg\<lparr>exclude_dirs := {''proj''}\<rparr>)) example_dir = Inr []"
    by blast
  note t2 = root_is_filtered_as_a_directory [of fnmatch example_cfg example_dir ascii_lower "[]" True
      "[([''home'', ''proj'', ''a.txt''], File), ([''home'', ''proj'', ''b''], Dir [(''x.py'', File)])]",
      THEN conjunct2, THEN conjunct2, THEN conjunct2, rule_format, OF v l, THEN conjunct2]
  show ?thesis
    by (intro conjI x s a a' v l t2 c)
qed

end
